theory Spec2Isabelle
  imports Complex_Main "HOL-Library.Log_Nat"
begin

section \<open>The environment of \<^verbatim>\<open>network_monitor.py\<close>\<close>

text \<open>
  The script talks to the outside world through \<^verbatim>\<open>subprocess.run\<close>,
  \<^verbatim>\<open>time.sleep\<close>, \<^verbatim>\<open>print\<close>, the log file and the clock.
  Every such call is an event of a trace; what the outside world answers is read from
  the \<open>world\<close>, as a function of the history so far, so that the same host may
  answer differently each time it is pinged.
\<close>

type_synonym host = string

text \<open>
  What \<^verbatim>\<open>subprocess.run(command, capture_output=True, text=True, timeout=10)\<close>
  can do: return a completed process (return code and standard output), raise
  \<^verbatim>\<open>subprocess.TimeoutExpired\<close>, raise any other subclass of
  \<^verbatim>\<open>Exception\<close> (\<^verbatim>\<open>FileNotFoundError\<close>,
  \<^verbatim>\<open>PermissionError\<close>, \<^verbatim>\<open>OSError\<close>, ..., named by the string), or be
  interrupted by the user: \<^verbatim>\<open>KeyboardInterrupt\<close> derives from
  \<^verbatim>\<open>BaseException\<close>, not from \<^verbatim>\<open>Exception\<close>.
\<close>

datatype run_outcome =
    Completed int string
  | TimeoutExpired
  | Raised string
  | Interrupted

datatype event =
    Run "string list" rat
  | Print string
  | Append string string
  | Sleep int rat

text \<open>The exceptions that leave a function of the script.\<close>

datatype exn = KeyboardInterrupt | ValueError | OverflowError | OSError

text \<open>
  What the operating system does with a sleep that \<^verbatim>\<open>time.sleep\<close> hands to
  it: it lasts to its end, it is interrupted by the user after some seconds, or it is
  refused (a deadline that the system's clock cannot hold), which Python raises as
  \<^verbatim>\<open>OSError\<close>.
\<close>

datatype sleep_outcome = Slept | SleepInterrupted rat | SleepRefused

text \<open>
  A Python float that \<^verbatim>\<open>float\<close> returns on an unsigned decimal numeral: a
  finite binary64 value, or \<^verbatim>\<open>inf\<close> when the numeral is too large.
\<close>

datatype pyfloat = Finite rat | Infinity

record world =
  platform_system :: string
  run_env :: "event list \<Rightarrow> string list \<Rightarrow> run_outcome \<times> rat"
  sleep_env :: "event list \<Rightarrow> int \<Rightarrow> sleep_outcome"
  log_env :: "event list \<Rightarrow> string option"
  strftime :: "rat \<Rightarrow> string"
  str_float :: "pyfloat \<Rightarrow> string"
  str_int :: "int \<Rightarrow> string"
  now :: rat
  trace :: "event list"

text \<open>
  \<^item> \<open>platform_system\<close>: the value of \<^verbatim>\<open>platform.system()\<close>;
  \<^item> \<open>run_env\<close>: the outcome of the next \<^verbatim>\<open>subprocess.run\<close> of a command and
    the seconds it takes, given the events so far;
  \<^item> \<open>sleep_env\<close>: what the operating system does with the next sleep of the
    given number of seconds, given the events so far;
  \<^item> \<open>log_env\<close>: \<open>Some e\<close> when the next write to the log file raises an exception
    that prints as \<open>e\<close>;
  \<^item> \<open>strftime\<close>, \<open>str_float\<close>, \<open>str_int\<close>: how Python prints the clock with
    \<^verbatim>\<open>"%Y-%m-%d %H:%M:%S"\<close>, a float and an int in an f-string;
  \<^item> \<open>now\<close>: the clock, in seconds; \<open>trace\<close>: the events so far, oldest first.

  A user interrupt is modelled where the script blocks: in \<^verbatim>\<open>subprocess.run\<close> and
  in \<^verbatim>\<open>time.sleep\<close>. Printing and logging take no time, and
  \<^verbatim>\<open>print\<close> and the clock do not fail.
\<close>

type_synonym 'a result = "(exn + 'a) \<times> world"

definition emit :: "event \<Rightarrow> world \<Rightarrow> world" where
  "emit e w = w\<lparr>trace := trace w @ [e]\<rparr>"

definition print :: "string \<Rightarrow> world \<Rightarrow> world" where
  "print s w = emit (Print s) w"

definition subprocess_run :: "string list \<Rightarrow> world \<Rightarrow> run_outcome \<times> world" where
  "subprocess_run command w =
     (case run_env w (trace w) command of
        (outcome, dt) \<Rightarrow> (outcome, (emit (Run command dt) w)\<lparr>now := now w + dt\<rparr>))"

text \<open>
  \<^verbatim>\<open>time.sleep(interval)\<close> on an int. CPython first converts the seconds to
  nanoseconds in a signed 64-bit integer and raises \<^verbatim>\<open>OverflowError\<close> when
  they do not fit (more than \<open>9223372036\<close> seconds, either way); a negative argument
  then raises \<^verbatim>\<open>ValueError\<close>. Otherwise the sleep goes to the operating
  system: the call blocks for \<open>interval\<close> seconds, unless the user interrupts it or
  the system refuses it.
\<close>

definition pytime_min :: int where
  "pytime_min = - (2 ^ 63)"

definition pytime_max :: int where
  "pytime_max = 2 ^ 63 - 1"

definition time_sleep :: "int \<Rightarrow> world \<Rightarrow> unit result" where
  "time_sleep secs w =
     (if secs * 1000000000 < pytime_min \<or> pytime_max < secs * 1000000000
      then (Inl OverflowError, w)
      else if secs < 0 then (Inl ValueError, w)
      else case sleep_env w (trace w) secs of
        Slept \<Rightarrow> (Inr (), (emit (Sleep secs (of_int secs)) w)\<lparr>now := now w + of_int secs\<rparr>)
      | SleepInterrupted t \<Rightarrow>
          (Inl KeyboardInterrupt, (emit (Sleep secs t) w)\<lparr>now := now w + t\<rparr>)
      | SleepRefused \<Rightarrow> (Inl OSError, w))"

section \<open>Strings\<close>

definition lower_char :: "char \<Rightarrow> char" where
  "lower_char c =
     (let n = (of_char c :: nat) in if 65 \<le> n \<and> n \<le> 90 then char_of (n + 32) else c)"

definition lower :: "string \<Rightarrow> string" where
  "lower s = map lower_char s"

definition starts_with :: "string \<Rightarrow> string \<Rightarrow> bool" where
  "starts_with p s = (take (length p) s = p)"

text \<open>\<^verbatim>\<open>p in s\<close> on strings.\<close>

fun contains :: "string \<Rightarrow> string \<Rightarrow> bool" where
  "contains p [] = (p = [])"
| "contains p (c # cs) = (starts_with p (c # cs) \<or> contains p cs)"

text \<open>\<^verbatim>\<open>sep.join(xs)\<close>.\<close>

fun join :: "string \<Rightarrow> string list \<Rightarrow> string" where
  "join sep [] = []"
| "join sep [x] = x"
| "join sep (x # y # ys) = x @ sep @ join sep (y # ys)"

text \<open>
  \<^verbatim>\<open>f"{host:20}"\<close>: left-justified in a field of width 20. A host name is
  taken to be ASCII, so that its characters are its bytes.
\<close>

definition ljust20 :: "string \<Rightarrow> string" where
  "ljust20 s = s @ replicate (20 - length s) CHR '' ''"

text \<open>The check mark U+2713 and the ballot x U+2717, as UTF-8.\<close>

definition check_mark :: string where
  "check_mark = [CHR 0xE2, CHR 0x9C, CHR 0x93]"

definition ballot_x :: string where
  "ballot_x = [CHR 0xE2, CHR 0x9C, CHR 0x97]"

section \<open>The regular expression \<^verbatim>\<open>time[<=](\d+(?:\.\d+)?)m?s\<close>\<close>

text \<open>
  A backtracking matcher in continuation-passing style, with the priorities of Python's
  \<^verbatim>\<open>re\<close>: a repetition and an option first try to consume, and give the
  characters back when the rest of the pattern fails. The continuation receives the
  text that is left. Characters are bytes and the output of \<^verbatim>\<open>ping\<close> is taken
  to be ASCII: \<^verbatim>\<open>\d\<close> is one of \<open>0\<close> to \<open>9\<close>.
\<close>

datatype cls = Chr char | OneOf string | Digit

datatype rx = Eps | Atom cls | Plus cls | Seq rx rx | Opt rx

definition is_digit :: "char \<Rightarrow> bool" where
  "is_digit c = (let n = (of_char c :: nat) in 48 \<le> n \<and> n \<le> 57)"

fun cls_match :: "cls \<Rightarrow> char \<Rightarrow> bool" where
  "cls_match (Chr c) x = (x = c)"
| "cls_match (OneOf cs) x = (x \<in> set cs)"
| "cls_match Digit x = is_digit x"

fun plus_match :: "cls \<Rightarrow> string \<Rightarrow> (string \<Rightarrow> 'a option) \<Rightarrow> 'a option" where
  "plus_match c [] k = None"
| "plus_match c (x # xs) k =
     (if cls_match c x
      then (case plus_match c xs k of Some r \<Rightarrow> Some r | None \<Rightarrow> k xs)
      else None)"

fun rx_match :: "rx \<Rightarrow> string \<Rightarrow> (string \<Rightarrow> 'a option) \<Rightarrow> 'a option" where
  "rx_match Eps s k = k s"
| "rx_match (Atom c) s k =
     (case s of [] \<Rightarrow> None | x # xs \<Rightarrow> if cls_match c x then k xs else None)"
| "rx_match (Plus c) s k = plus_match c s k"
| "rx_match (Seq a b) s k = rx_match a s (\<lambda>t. rx_match b t k)"
| "rx_match (Opt a) s k = (case rx_match a s k of Some r \<Rightarrow> Some r | None \<Rightarrow> k s)"

definition literal :: "string \<Rightarrow> rx" where
  "literal s = foldr (\<lambda>c r. Seq (Atom (Chr c)) r) s Eps"

text \<open>The three parts of the pattern: before the group, the group, after it.\<close>

definition time_head :: rx where
  "time_head = Seq (literal ''time'') (Atom (OneOf ''<=''))"

definition time_group :: rx where
  "time_group = Seq (Plus Digit) (Opt (Seq (Atom (Chr CHR ''.'')) (Plus Digit)))"

definition time_tail :: rx where
  "time_tail = Seq (Opt (Atom (Chr CHR ''m''))) (Atom (Chr CHR ''s''))"

text \<open>A match that starts at the head of \<open>s\<close>; the result is \<^verbatim>\<open>group(1)\<close>.\<close>

definition match_here :: "string \<Rightarrow> string option" where
  "match_here s =
     rx_match time_head s (\<lambda>s1.
       rx_match time_group s1 (\<lambda>s2.
         rx_match time_tail s2 (\<lambda>s3. Some (take (length s1 - length s2) s1))))"

text \<open>\<^verbatim>\<open>re.search\<close>: the first start position with a match, from the left.\<close>

fun re_search :: "string \<Rightarrow> string option" where
  "re_search [] = match_here []"
| "re_search (c # cs) =
     (case match_here (c # cs) of Some g \<Rightarrow> Some g | None \<Rightarrow> re_search cs)"

section \<open>\<^verbatim>\<open>float\<close> on the matched numeral\<close>

definition digit_val :: "char \<Rightarrow> nat" where
  "digit_val c = of_char c - 48"

definition nat_of_digits :: "string \<Rightarrow> nat" where
  "nat_of_digits ds = foldl (\<lambda>a c. 10 * a + digit_val c) 0 ds"

text \<open>The exact value of \<open>ddd\<close> or \<open>ddd.fff\<close>.\<close>

definition decimal_value :: "string \<Rightarrow> rat" where
  "decimal_value s =
     (let ip = takeWhile (\<lambda>c. c \<noteq> CHR ''.'') s;
          fp = drop (Suc (length ip)) s
      in of_nat (nat_of_digits ip) + of_nat (nat_of_digits fp) / 10 ^ length fp)"

text \<open>
  Rounding to binary64, to nearest and ties to even, as \<^verbatim>\<open>float\<close> does on a
  string: 53 bits of mantissa, exponents from \<open>-1022\<close>, subnormals below, and
  \<^verbatim>\<open>inf\<close> from \<open>2 ^ 1024\<close>.
\<close>

definition pow2 :: "int \<Rightarrow> rat" where
  "pow2 e = (if 0 \<le> e then 2 ^ nat e else 1 / 2 ^ nat (- e))"

definition ilog2 :: "rat \<Rightarrow> int" where
  "ilog2 q =
     (case quotient_of q of (a, b) \<Rightarrow>
        let e = int (floorlog 2 (nat a)) - int (floorlog 2 (nat b))
        in if q < pow2 e then e - 1 else e)"

definition round_half_even :: "rat \<Rightarrow> int" where
  "round_half_even x =
     (let f = \<lfloor>x\<rfloor>; d = x - of_int f
      in if d < 1 / 2 then f else if 1 / 2 < d then f + 1
         else if even f then f else f + 1)"

definition to_binary64 :: "rat \<Rightarrow> pyfloat" where
  "to_binary64 q =
     (if q = 0 then Finite 0
      else let e = max (ilog2 q) (- 1022);
               ulp = pow2 (e - 52);
               r = of_int (round_half_even (q / ulp)) * ulp
           in if pow2 1024 \<le> r then Infinity else Finite r)"

definition py_float :: "string \<Rightarrow> pyfloat" where
  "py_float s = to_binary64 (decimal_value s)"

text \<open>The truth value of \<^verbatim>\<open>response_time\<close> in \<^verbatim>\<open>if response_time:\<close>.\<close>

fun truthy :: "pyfloat option \<Rightarrow> bool" where
  "truthy None = False"
| "truthy (Some (Finite q)) = (q \<noteq> 0)"
| "truthy (Some Infinity) = True"

section \<open>The probes\<close>

definition ping_command :: "host \<Rightarrow> world \<Rightarrow> string list" where
  "ping_command host w =
     (let param = (if lower (platform_system w) = ''windows'' then ''-n'' else ''-c'')
      in [''ping'', param, ''1'', host])"

definition ping_host :: "host \<Rightarrow> world \<Rightarrow> bool result" where
  "ping_host host w =
     (case subprocess_run (ping_command host w) w of
        (Completed returncode out, w') \<Rightarrow> (Inr (returncode = 0), w')
      | (TimeoutExpired, w') \<Rightarrow> (Inr False, w')
      | (Raised e, w') \<Rightarrow> (Inr False, w')
      | (Interrupted, w') \<Rightarrow> (Inl KeyboardInterrupt, w'))"

definition parse_time :: "string \<Rightarrow> pyfloat option" where
  "parse_time output =
     (if contains ''time='' output
      then (case re_search output of
              Some g \<Rightarrow> Some (py_float g)
            | None \<Rightarrow> None)
      else None)"

definition get_response_time :: "host \<Rightarrow> world \<Rightarrow> pyfloat option result" where
  "get_response_time host w =
     (case subprocess_run (ping_command host w) w of
        (Completed returncode out, w') \<Rightarrow>
          (if returncode = 0 then (Inr (parse_time out), w') else (Inr None, w'))
      | (TimeoutExpired, w') \<Rightarrow> (Inr None, w')
      | (Raised e, w') \<Rightarrow> (Inr None, w')
      | (Interrupted, w') \<Rightarrow> (Inl KeyboardInterrupt, w'))"

definition test_hosts :: "host list" where
  "test_hosts = [''8.8.8.8'', ''1.1.1.1'', ''google.com'']"

fun check_loop :: "host list \<Rightarrow> world \<Rightarrow> bool result" where
  "check_loop [] w = (Inr False, w)"
| "check_loop (host # hosts) w =
     (case ping_host host w of
        (Inl e, w') \<Rightarrow> (Inl e, w')
      | (Inr True, w') \<Rightarrow> (Inr True, w')
      | (Inr False, w') \<Rightarrow> check_loop hosts w')"

definition check_internet_connection :: "world \<Rightarrow> bool result" where
  "check_internet_connection w = check_loop test_hosts w"

section \<open>Logging\<close>

definition newline :: char where
  "newline = CHR 0x0A"

text \<open>
  \<^verbatim>\<open>log_result(message)\<close> with the default log file: an exception of the write
  is caught and printed.
\<close>

definition log_result :: "string \<Rightarrow> world \<Rightarrow> world" where
  "log_result message w =
     (let timestamp = strftime w (now w);
          log_entry = ''['' @ timestamp @ ''] '' @ message @ [newline]
      in case log_env w (trace w) of
           None \<Rightarrow> emit (Append ''network_monitor.log'' log_entry) w
         | Some e \<Rightarrow> print (''Error writing to log file: '' @ e) w)"

definition log_if :: "bool \<Rightarrow> string \<Rightarrow> world \<Rightarrow> world" where
  "log_if log_to_file message w = (if log_to_file then log_result message w else w)"

section \<open>Continuous monitoring: \<^verbatim>\<open>monitor_hosts\<close>\<close>

text \<open>The status line of a host that answered (lines 106 to 110).\<close>

definition reachable_msg :: "world \<Rightarrow> host \<Rightarrow> pyfloat option \<Rightarrow> string" where
  "reachable_msg w host response_time =
     (case response_time of
        Some t \<Rightarrow>
          if truthy (Some t)
          then check_mark @ '' '' @ host @ '': REACHABLE ('' @ str_float w t @ ''ms)''
          else check_mark @ '' '' @ host @ '': REACHABLE''
      | None \<Rightarrow> check_mark @ '' '' @ host @ '': REACHABLE'')"

definition unreachable_msg :: "host \<Rightarrow> string" where
  "unreachable_msg host = ballot_x @ '' '' @ host @ '': UNREACHABLE''"

text \<open>The body of \<^verbatim>\<open>for host in hosts\<close> (lines 105 to 118).\<close>

definition monitor_host :: "bool \<Rightarrow> host \<Rightarrow> world \<Rightarrow> unit result" where
  "monitor_host log_to_file host w =
     (case ping_host host w of
        (Inl e, w1) \<Rightarrow> (Inl e, w1)
      | (Inr True, w1) \<Rightarrow>
          (case get_response_time host w1 of
             (Inl e, w2) \<Rightarrow> (Inl e, w2)
           | (Inr response_time, w2) \<Rightarrow>
               (let status_msg = reachable_msg w2 host response_time
                in (Inr (), log_if log_to_file status_msg (print status_msg w2))))
      | (Inr False, w1) \<Rightarrow>
          (let status_msg = unreachable_msg host
           in (Inr (), log_if log_to_file status_msg (print status_msg w1))))"

fun monitor_each :: "bool \<Rightarrow> host list \<Rightarrow> world \<Rightarrow> unit result" where
  "monitor_each log_to_file [] w = (Inr (), w)"
| "monitor_each log_to_file (host # hosts) w =
     (case monitor_host log_to_file host w of
        (Inl e, w') \<Rightarrow> (Inl e, w')
      | (Inr u, w') \<Rightarrow> monitor_each log_to_file hosts w')"

text \<open>One round: lines 90 to 118 of the loop body.\<close>

definition monitor_round :: "host list \<Rightarrow> bool \<Rightarrow> world \<Rightarrow> unit result" where
  "monitor_round hosts log_to_file w =
     (let timestamp = strftime w (now w);
          w1 = print (newline # ''--- Network Check at '' @ timestamp @ '' ---'') w
      in case check_internet_connection w1 of
           (Inl e, w2) \<Rightarrow> (Inl e, w2)
         | (Inr True, w2) \<Rightarrow>
             monitor_each log_to_file hosts
               (log_if log_to_file ''Internet connection: ONLINE''
                  (print (check_mark @ '' Internet connection: ONLINE'') w2))
         | (Inr False, w2) \<Rightarrow>
             monitor_each log_to_file hosts
               (log_if log_to_file ''Internet connection: OFFLINE''
                  (print (ballot_x @ '' Internet connection: OFFLINE'') w2)))"

text \<open>The whole loop body: the round, then lines 120 and 121.\<close>

definition monitor_iteration :: "host list \<Rightarrow> int \<Rightarrow> bool \<Rightarrow> world \<Rightarrow> unit result" where
  "monitor_iteration hosts interval log_to_file w =
     (case monitor_round hosts log_to_file w of
        (Inl e, w1) \<Rightarrow> (Inl e, w1)
      | (Inr u, w1) \<Rightarrow>
          time_sleep interval
            (print (newline # ''Next check in '' @ str_int w1 interval @ '' seconds...'') w1))"

text \<open>
  \<^verbatim>\<open>while True\<close>: the loop ends only by an exception, and
  \<open>monitor_hosts\<close> catches only \<^verbatim>\<open>KeyboardInterrupt\<close>. The first argument
  bounds the number of iterations; \<open>None\<close> says that the loop was still running
  after that many.
\<close>

fun monitor_loop :: "nat \<Rightarrow> host list \<Rightarrow> int \<Rightarrow> bool \<Rightarrow> world \<Rightarrow> (exn \<times> world) option" where
  "monitor_loop 0 hosts interval log_to_file w = None"
| "monitor_loop (Suc n) hosts interval log_to_file w =
     (case monitor_iteration hosts interval log_to_file w of
        (Inl e, w') \<Rightarrow> Some (e, w')
      | (Inr u, w') \<Rightarrow> monitor_loop n hosts interval log_to_file w')"

definition monitor_hosts ::
    "nat \<Rightarrow> host list \<Rightarrow> int \<Rightarrow> bool \<Rightarrow> world \<Rightarrow> unit result option" where
  "monitor_hosts fuel hosts interval log_to_file w =
     (let w1 = print ''Starting Network Monitor...'' w;
          w2 = print (''Monitoring hosts: '' @ join '', '' hosts) w1;
          w3 = print (''Check interval: '' @ str_int w2 interval @ '' seconds'') w2;
          w4 = print (''Press Ctrl+C to stop monitoring'' @ [newline]) w3
      in case monitor_loop fuel hosts interval log_to_file w4 of
           None \<Rightarrow> None
         | Some (KeyboardInterrupt, w5) \<Rightarrow>
             Some (Inr (),
               log_if log_to_file ''Network monitoring stopped by user''
                 (print ([newline, newline] @ ''Monitoring stopped by user.'') w5))
         | Some (e, w5) \<Rightarrow> Some (Inl e, w5))"

section \<open>One round: \<^verbatim>\<open>single_check\<close>\<close>

definition single_reachable_msg :: "world \<Rightarrow> host \<Rightarrow> pyfloat option \<Rightarrow> string" where
  "single_reachable_msg w host response_time =
     (case response_time of
        Some t \<Rightarrow>
          if truthy (Some t)
          then ljust20 host @ '' '' @ check_mark @ '' REACHABLE ('' @ str_float w t @ ''ms)''
          else ljust20 host @ '' '' @ check_mark @ '' REACHABLE''
      | None \<Rightarrow> ljust20 host @ '' '' @ check_mark @ '' REACHABLE'')"

definition single_unreachable_msg :: "host \<Rightarrow> string" where
  "single_unreachable_msg host = ljust20 host @ '' '' @ ballot_x @ '' UNREACHABLE''"

text \<open>The body of \<^verbatim>\<open>for host in hosts\<close> (lines 144 to 151).\<close>

definition single_host :: "host \<Rightarrow> world \<Rightarrow> unit result" where
  "single_host host w =
     (case ping_host host w of
        (Inl e, w1) \<Rightarrow> (Inl e, w1)
      | (Inr True, w1) \<Rightarrow>
          (case get_response_time host w1 of
             (Inl e, w2) \<Rightarrow> (Inl e, w2)
           | (Inr response_time, w2) \<Rightarrow>
               (Inr (), print (single_reachable_msg w2 host response_time) w2))
      | (Inr False, w1) \<Rightarrow> (Inr (), print (single_unreachable_msg host) w1))"

fun single_each :: "host list \<Rightarrow> world \<Rightarrow> unit result" where
  "single_each [] w = (Inr (), w)"
| "single_each (host # hosts) w =
     (case single_host host w of
        (Inl e, w') \<Rightarrow> (Inl e, w')
      | (Inr u, w') \<Rightarrow> single_each hosts w')"

definition single_check :: "host list \<Rightarrow> world \<Rightarrow> unit result" where
  "single_check hosts w =
     (let timestamp = strftime w (now w);
          w1 = print (''Network Status Check - '' @ timestamp) w;
          w2 = print (replicate 50 CHR ''='') w1
      in case check_internet_connection w2 of
           (Inl e, w3) \<Rightarrow> (Inl e, w3)
         | (Inr True, w3) \<Rightarrow>
             single_each hosts
               (print (newline # ''Host Connectivity:'')
                  (print (''Internet Connection: '' @ check_mark @ '' ONLINE'') w3))
         | (Inr False, w3) \<Rightarrow>
             single_each hosts
               (print (newline # ''Host Connectivity:'')
                  (print (''Internet Connection: '' @ ballot_x @ '' OFFLINE'') w3)))"

section \<open>Notions used in the statements\<close>

text \<open>
  A failure of the ping facility: a return code other than zero, the timeout, or an
  exception of the invocation. A user interrupt is not one.
\<close>

fun facility_failure :: "run_outcome \<Rightarrow> bool" where
  "facility_failure (Completed returncode out) = (returncode \<noteq> 0)"
| "facility_failure TimeoutExpired = True"
| "facility_failure (Raised e) = True"
| "facility_failure Interrupted = False"

text \<open>
  A world for the examples: a Linux machine at time \<open>0\<close> with an empty trace, a
  log file that can be written, no user interrupt of a sleep, and an operating system
  that refuses a sleep of nine billion seconds or more; the answers of
  \<^verbatim>\<open>ping\<close> are the parameter. Numbers are printed as the examples need
  them: the latency \<open>12.0\<close> and the interval \<open>60\<close>.
\<close>

definition lab_world :: "(event list \<Rightarrow> string list \<Rightarrow> run_outcome \<times> rat) \<Rightarrow> world" where
  "lab_world env =
     \<lparr>platform_system = ''Linux'', run_env = env, sleep_env = (\<lambda>tr secs. if secs < 9000000000 then Slept else SleepRefused),
      log_env = (\<lambda>tr. None), strftime = (\<lambda>t. ''2024-01-01 00:00:00''),
      str_float = (\<lambda>x. ''12.0''), str_int = (\<lambda>i. ''60''), now = 0, trace = []\<rparr>"

definition no_ping_binary :: world where
  "no_ping_binary = lab_world (\<lambda>tr cmd. (Raised ''FileNotFoundError'', 0))"

text \<open>
  Whether the ping of a host succeeds when it is issued after the events \<open>tr\<close>,
  and the event that this ping leaves in the trace.
\<close>

definition ping_ok :: "world \<Rightarrow> event list \<Rightarrow> host \<Rightarrow> bool" where
  "ping_ok w tr host =
     (case fst (run_env w tr (ping_command host w)) of
        Completed returncode out \<Rightarrow> returncode = 0
      | _ \<Rightarrow> False)"

definition run_event :: "world \<Rightarrow> event list \<Rightarrow> host \<Rightarrow> event" where
  "run_event w tr host =
     Run (ping_command host w) (snd (run_env w tr (ping_command host w)))"

text \<open>No \<^verbatim>\<open>subprocess.run\<close> is interrupted by the user.\<close>

definition uninterrupted :: "world \<Rightarrow> bool" where
  "uninterrupted w = (\<forall>tr cmd. fst (run_env w tr cmd) \<noteq> Interrupted)"

text \<open>The second world runs on the same machine as the first: only clock and trace differ.\<close>

definition same_env :: "world \<Rightarrow> world \<Rightarrow> bool" where
  "same_env w w' =
     (platform_system w' = platform_system w \<and> run_env w' = run_env w
      \<and> sleep_env w' = sleep_env w \<and> log_env w' = log_env w
      \<and> strftime w' = strftime w \<and> str_float w' = str_float w
      \<and> str_int w' = str_int w)"

text \<open>Only the first public resolver answers.\<close>

definition first_anchor_up :: world where
  "first_anchor_up =
     lab_world (\<lambda>tr cmd.
       if last cmd = ''8.8.8.8''
       then (Completed 0 ''Reply from 8.8.8.8: bytes=32 time=12ms TTL=117'', 1 / 50)
       else (Completed 1 '''', 3))"

text \<open>
  An event that is one run of \<^verbatim>\<open>ping\<close> against a host with the count
  argument \<open>1\<close>, that is, a request for one ICMP echo; and how many of them a
  trace holds.
\<close>

fun is_ping_of :: "host \<Rightarrow> event \<Rightarrow> bool" where
  "is_ping_of host (Run command dt) =
     (command = [''ping'', ''-n'', ''1'', host] \<or> command = [''ping'', ''-c'', ''1'', host])"
| "is_ping_of host (Print s) = False"
| "is_ping_of host (Append file s) = False"
| "is_ping_of host (Sleep secs dt) = False"

definition echo_requests :: "host \<Rightarrow> event list \<Rightarrow> nat" where
  "echo_requests host tr = length (filter (is_ping_of host) tr)"

text \<open>Every host answers, and \<^verbatim>\<open>ping\<close> prints the given text.\<close>

definition all_up :: "string \<Rightarrow> world" where
  "all_up out = lab_world (\<lambda>tr cmd. (Completed 0 out, 1 / 50))"

text \<open>No character class of a pattern accepts the character \<open>x\<close>.\<close>

fun avoids :: "char \<Rightarrow> rx \<Rightarrow> bool" where
  "avoids x Eps = True"
| "avoids x (Atom c) = (\<not> cls_match c x)"
| "avoids x (Plus c) = (\<not> cls_match c x)"
| "avoids x (Seq a b) = (avoids x a \<and> avoids x b)"
| "avoids x (Opt a) = avoids x a"

text \<open>What a trace shows: the lines printed, the hosts pinged, the sleeps.\<close>

fun printed :: "event list \<Rightarrow> string list" where
  "printed [] = []"
| "printed (Print s # tr) = s # printed tr"
| "printed (e # tr) = printed tr"

fun pinged :: "event list \<Rightarrow> host list" where
  "pinged [] = []"
| "pinged (Run command dt # tr) = last command # pinged tr"
| "pinged (e # tr) = pinged tr"

fun slept :: "event list \<Rightarrow> int list" where
  "slept [] = []"
| "slept (Sleep secs dt # tr) = secs # slept tr"
| "slept (e # tr) = slept tr"

text \<open>The seconds that an event lasts, and the seconds that a trace lasts.\<close>

fun busy :: "event \<Rightarrow> rat" where
  "busy (Run command dt) = dt"
| "busy (Sleep secs dt) = dt"
| "busy (Print s) = 0"
| "busy (Append file s) = 0"

definition elapsed :: "event list \<Rightarrow> rat" where
  "elapsed tr = sum_list (map busy tr)"

text \<open>The longest single event of a trace.\<close>

definition longest :: "event list \<Rightarrow> rat" where
  "longest tr = foldr max (map busy tr) 0"

text \<open>
  The world \<open>w'\<close> is the world \<open>w\<close> after the events \<open>new\<close>: the same machine,
  the trace longer by \<open>new\<close>, and the clock later by the time they last.
\<close>

definition extends :: "world \<Rightarrow> event list \<Rightarrow> world \<Rightarrow> bool" where
  "extends w new w' =
     (same_env w w' \<and> trace w' = trace w @ new \<and> now w' = now w + elapsed new)"

text \<open>The event that a call of \<open>log_result\<close> leaves in the trace.\<close>

definition log_event :: "world \<Rightarrow> string \<Rightarrow> event" where
  "log_event w m =
     (case log_env w (trace w) of
        None \<Rightarrow> Append ''network_monitor.log'' (''['' @ strftime w (now w) @ ''] '' @ m @ [newline])
      | Some e \<Rightarrow> Print (''Error writing to log file: '' @ e))"

text \<open>
  A sleep of the given number of seconds is neither interrupted by the user nor refused
  by the operating system, whenever it is asked for.
\<close>

definition sound_sleep :: "world \<Rightarrow> int \<Rightarrow> bool" where
  "sound_sleep w secs = (\<forall>tr. sleep_env w tr secs = Slept)"

text \<open>
  The start of the next round as the specification has it: when the interval has
  elapsed since the start of the round, or at the end of the round if that is later.
\<close>

definition spec_next_start :: "rat \<Rightarrow> int \<Rightarrow> rat \<Rightarrow> rat" where
  "spec_next_start round_start interval round_end = max (round_start + of_int interval) round_end"

text \<open>No host answers, and every ping runs into its timeout of ten seconds.\<close>

definition all_down :: world where
  "all_down = lab_world (\<lambda>tr cmd. (TimeoutExpired, 10))"

text \<open>Every host answers after two seconds.\<close>

definition slow_net :: world where
  "slow_net = lab_world (\<lambda>tr cmd. (Completed 0 ''bytes=32 time=2000ms TTL=117'', 2))"

text \<open>A unit \<open>ms\<close> or \<open>s\<close> stands at the head of a text, possibly after blanks.\<close>

definition unit_after_blanks :: "string \<Rightarrow> bool" where
  "unit_after_blanks s =
     (let t = dropWhile (\<lambda>c. c = CHR '' '') s
      in starts_with ''ms'' t \<or> starts_with ''s'' t)"

section \<open>Properties\<close>

subsection \<open>Failed probes\<close>

lemma subprocess_run_fst:
  "fst (subprocess_run command w) = fst (run_env w (trace w) command)"
  by (simp add: subprocess_run_def split: prod.splits)

lemma ping_host_failure:
  "facility_failure (fst (run_env w (trace w) (ping_command host w))) \<Longrightarrow>
   ping_host host w = (Inr False, snd (subprocess_run (ping_command host w) w))"
  by (cases "subprocess_run (ping_command host w) w";
      cases "fst (run_env w (trace w) (ping_command host w))")
     (auto simp: ping_host_def subprocess_run_def split: prod.splits)

lemma get_response_time_failure:
  "facility_failure (fst (run_env w (trace w) (ping_command host w))) \<Longrightarrow>
   get_response_time host w = (Inr None, snd (subprocess_run (ping_command host w) w))"
  by (cases "subprocess_run (ping_command host w) w";
      cases "fst (run_env w (trace w) (ping_command host w))")
     (auto simp: get_response_time_def subprocess_run_def split: prod.splits)

text \<open>
  C1. Whenever the ping facility fails for a host (timeout, return code other than
  zero, missing binary, permission error or any other exception of the invocation),
  \<open>ping_host\<close> returns \<open>False\<close> and raises nothing; so does
  \<open>get_response_time\<close> with \<open>None\<close>, and the loop bodies of both modes return
  normally, so that the round goes on with the next host.
\<close>

theorem probe_failure_is_unreachable:
  assumes "facility_failure (fst (run_env w (trace w) (ping_command host w)))"
  shows "fst (ping_host host w) = Inr False
       \<and> fst (get_response_time host w) = Inr None
       \<and> fst (monitor_host log_to_file host w) = Inr ()
       \<and> fst (single_host host w) = Inr ()"
  using assms
  by (simp add: ping_host_failure get_response_time_failure monitor_host_def
      single_host_def Let_def)

theorem probe_failure_is_unreachable_witness:
  "facility_failure
     (fst (run_env no_ping_binary (trace no_ping_binary)
        (ping_command ''10.0.0.1'' no_ping_binary)))
   \<and> fst (ping_host ''10.0.0.1'' no_ping_binary) = Inr False
   \<and> fst (get_response_time ''10.0.0.1'' no_ping_binary) = Inr None
   \<and> fst (monitor_host True ''10.0.0.1'' no_ping_binary) = Inr ()
   \<and> fst (single_host ''10.0.0.1'' no_ping_binary) = Inr ()"
  using probe_failure_is_unreachable [of no_ping_binary "''10.0.0.1''" True]
  by (simp add: no_ping_binary_def lab_world_def)

subsection \<open>The connectivity check\<close>

lemma same_env_refl: "same_env w w"
  by (simp add: same_env_def)

lemma same_env_trans: "same_env a b \<Longrightarrow> same_env b c \<Longrightarrow> same_env a c"
  by (simp add: same_env_def)

lemma same_env_emit: "same_env w (emit e w)"
  by (simp add: same_env_def emit_def)

lemma same_env_uninterrupted: "same_env w w' \<Longrightarrow> uninterrupted w' = uninterrupted w"
  by (simp add: same_env_def uninterrupted_def)

lemma same_env_ping_command: "same_env w w' \<Longrightarrow> ping_command host w' = ping_command host w"
  by (simp add: same_env_def ping_command_def)

lemma same_env_ping_ok: "same_env w w' \<Longrightarrow> ping_ok w' tr host = ping_ok w tr host"
  by (simp add: ping_ok_def same_env_ping_command) (simp add: same_env_def)

lemma same_env_run_event: "same_env w w' \<Longrightarrow> run_event w' tr host = run_event w tr host"
  by (simp add: run_event_def same_env_ping_command) (simp add: same_env_def)

lemma ping_host_step:
  assumes "fst (run_env w (trace w) (ping_command host w)) \<noteq> Interrupted"
  shows "fst (ping_host host w) = Inr (ping_ok w (trace w) host)"
    and "trace (snd (ping_host host w)) = trace w @ [run_event w (trace w) host]"
    and "same_env w (snd (ping_host host w))"
  using assms
  by (auto simp: ping_host_def subprocess_run_def ping_ok_def run_event_def emit_def
      same_env_def split: prod.splits run_outcome.splits)

text \<open>
  C2. The connectivity check pings \<open>8.8.8.8\<close>, \<open>1.1.1.1\<close> and
  \<open>google.com\<close> in this order. It returns \<open>True\<close> exactly when one of them
  answers, and \<open>False\<close> exactly when none does; it stops after the first anchor that
  answers, so that the pings it has run are the anchors up to that one.
\<close>

theorem check_internet_short_circuit:
  fixes w :: world
  defines "t0 \<equiv> trace w"
    and "e1 \<equiv> run_event w (trace w) ''8.8.8.8''"
  defines "t1 \<equiv> t0 @ [e1]"
  defines "e2 \<equiv> run_event w t1 ''1.1.1.1''"
  defines "t2 \<equiv> t1 @ [e2]"
  defines "e3 \<equiv> run_event w t2 ''google.com''"
  assumes "uninterrupted w"
  shows "fst (check_internet_connection w) =
           Inr (ping_ok w t0 ''8.8.8.8'' \<or> ping_ok w t1 ''1.1.1.1'' \<or> ping_ok w t2 ''google.com'')
       \<and> trace (snd (check_internet_connection w)) =
           t0 @ (if ping_ok w t0 ''8.8.8.8'' then [e1]
                 else if ping_ok w t1 ''1.1.1.1'' then [e1, e2]
                 else [e1, e2, e3])"
proof -
  let ?w1 = "snd (ping_host ''8.8.8.8'' w)"
  let ?w2 = "snd (ping_host ''1.1.1.1'' ?w1)"
  let ?w3 = "snd (ping_host ''google.com'' ?w2)"
  have ni: "\<And>v host. same_env w v \<Longrightarrow> fst (run_env v (trace v) (ping_command host v)) \<noteq> Interrupted"
    using assms(7) by (simp add: uninterrupted_def same_env_def)
  have s1: "same_env w ?w1" by (rule ping_host_step(3)) (rule ni [OF same_env_refl])
  have s2: "same_env w ?w2"
    by (rule same_env_trans [OF s1]) (rule ping_host_step(3), rule ni [OF s1])
  have r1: "fst (ping_host ''8.8.8.8'' w) = Inr (ping_ok w t0 ''8.8.8.8'')"
    and tr1: "trace ?w1 = t1"
    using ping_host_step(1,2) [OF ni [OF same_env_refl], of "''8.8.8.8''"]
    by (simp_all add: t0_def t1_def e1_def)
  have r2: "fst (ping_host ''1.1.1.1'' ?w1) = Inr (ping_ok w t1 ''1.1.1.1'')"
    and tr2: "trace ?w2 = t2"
    using ping_host_step(1,2) [OF ni [OF s1], of "''1.1.1.1''"] tr1
    by (simp_all add: t2_def e2_def same_env_ping_ok [OF s1] same_env_run_event [OF s1])
  have r3: "fst (ping_host ''google.com'' ?w2) = Inr (ping_ok w t2 ''google.com'')"
    and tr3: "trace ?w3 = t2 @ [e3]"
    using ping_host_step(1,2) [OF ni [OF s2], of "''google.com''"] tr2
    by (simp_all add: e3_def same_env_ping_ok [OF s2] same_env_run_event [OF s2])
  show ?thesis
    using r1 r2 r3 tr1 tr2 tr3
    by (cases "ping_host ''8.8.8.8'' w"; cases "ping_host ''1.1.1.1'' ?w1";
        cases "ping_host ''google.com'' ?w2")
       (auto simp: check_internet_connection_def test_hosts_def t1_def t2_def split: bool.splits)
qed

lemma lab_trace: "trace (lab_world env) = []" and lab_env: "run_env (lab_world env) = env"
  and lab_platform: "platform_system (lab_world env) = ''Linux''"
  by (simp_all add: lab_world_def)

lemma ping_command_lab: "ping_command host (lab_world env) = [''ping'', ''-c'', ''1'', host]"
  by (simp add: ping_command_def lab_world_def lower_def lower_char_def)

theorem check_internet_short_circuit_witness:
  "uninterrupted first_anchor_up
   \<and> fst (check_internet_connection first_anchor_up) = Inr True
   \<and> trace (snd (check_internet_connection first_anchor_up)) =
       [Run [''ping'', ''-c'', ''1'', ''8.8.8.8''] (1 / 50)]"
proof -
  have u: "uninterrupted first_anchor_up"
    by (simp add: uninterrupted_def first_anchor_up_def lab_env)
  show ?thesis
    using u check_internet_short_circuit [OF u]
    by (simp add: first_anchor_up_def ping_ok_def run_event_def lab_env lab_trace
        ping_command_lab)
qed

subsection \<open>The loop body of a round\<close>

lemma trace_emit: "trace (emit e w) = trace w @ [e]"
  by (simp add: emit_def)

lemma trace_print: "trace (print s w) = trace w @ [Print s]"
  by (simp add: print_def emit_def)

lemma same_env_print: "same_env w (print s w)"
  by (simp add: print_def same_env_emit)

lemma same_env_log_if: "same_env w (log_if l m w)"
  by (simp add: log_if_def log_result_def Let_def same_env_emit same_env_print same_env_refl
      split: option.splits)

lemma now_print: "now (print s w) = now w"
  by (simp add: print_def emit_def)

lemma now_log_if: "now (log_if l m w) = now w"
  by (simp add: log_if_def log_result_def Let_def emit_def print_def split: option.splits)

text \<open>What a call of \<open>log_result\<close> leaves in the trace.\<close>

lemma trace_log_if:
  "trace (log_if l m w) = trace w @
     (if l then
        [case log_env w (trace w) of
           None \<Rightarrow> Append ''network_monitor.log'' (''['' @ strftime w (now w) @ ''] '' @ m @ [newline])
         | Some e \<Rightarrow> Print (''Error writing to log file: '' @ e)]
      else [])"
  by (simp add: log_if_def log_result_def Let_def emit_def print_def split: option.splits)

lemma trace_subprocess_run:
  "trace (snd (subprocess_run command w)) =
     trace w @ [Run command (snd (run_env w (trace w) command))]"
  by (simp add: subprocess_run_def emit_def split: prod.splits)

lemma trace_ping_host:
  "trace (snd (ping_host host w)) = trace w @ [run_event w (trace w) host]"
  by (simp add: ping_host_def subprocess_run_def emit_def run_event_def
      split: prod.splits run_outcome.splits)

lemma trace_get_response_time:
  "trace (snd (get_response_time host w)) = trace w @ [run_event w (trace w) host]"
  by (simp add: get_response_time_def subprocess_run_def emit_def run_event_def
      split: prod.splits run_outcome.splits)

lemma same_env_ping_host: "same_env w (snd (ping_host host w))"
  by (simp add: ping_host_def subprocess_run_def emit_def same_env_def
      split: prod.splits run_outcome.splits)

lemma same_env_get_response_time: "same_env w (snd (get_response_time host w))"
  by (simp add: get_response_time_def subprocess_run_def emit_def same_env_def
      split: prod.splits run_outcome.splits)

text \<open>
  C3. When the ping of a host fails, the loop body of a round runs no second ping to
  measure a latency, and the status it prints (and logs) is the line
  \<open>UNREACHABLE\<close> of that host, which holds no latency; in both modes.
\<close>

theorem unreachable_has_no_latency:
  assumes "fst (ping_host host w) = Inr False"
  shows "monitor_host log_to_file host w =
           (Inr (), log_if log_to_file (ballot_x @ '' '' @ host @ '': UNREACHABLE'')
                      (print (ballot_x @ '' '' @ host @ '': UNREACHABLE'')
                         (snd (ping_host host w))))
       \<and> single_host host w =
           (Inr (), print (ljust20 host @ '' '' @ ballot_x @ '' UNREACHABLE'')
                      (snd (ping_host host w)))
       \<and> trace (snd (ping_host host w)) = trace w @ [run_event w (trace w) host]"
  using assms
  by (cases "ping_host host w")
     (simp add: monitor_host_def single_host_def unreachable_msg_def
        single_unreachable_msg_def Let_def trace_ping_host [symmetric])

theorem unreachable_has_no_latency_witness:
  "fst (ping_host ''10.0.0.1'' no_ping_binary) = Inr False
   \<and> trace (snd (monitor_host False ''10.0.0.1'' no_ping_binary)) =
       [Run [''ping'', ''-c'', ''1'', ''10.0.0.1''] 0,
        Print (ballot_x @ '' 10.0.0.1: UNREACHABLE'')]
   \<and> trace (snd (single_host ''10.0.0.1'' no_ping_binary)) =
       [Run [''ping'', ''-c'', ''1'', ''10.0.0.1''] 0,
        Print (''10.0.0.1             '' @ ballot_x @ '' UNREACHABLE'')]"
proof -
  have f: "fst (ping_host ''10.0.0.1'' no_ping_binary) = Inr False"
    by (simp add: ping_host_def subprocess_run_def no_ping_binary_def lab_env)
  show ?thesis
    using f unreachable_has_no_latency [OF f, of False]
    by (simp add: trace_print trace_log_if trace_ping_host run_event_def no_ping_binary_def
        lab_env lab_trace ping_command_lab ljust20_def eval_nat_numeral)
qed


lemma get_response_time_unparsed:
  assumes "fst (run_env w (trace w) (ping_command host w)) = Completed 0 out"
  shows "fst (get_response_time host w) = Inr (parse_time out)"
  using assms
  by (cases "run_env w (trace w) (ping_command host w)")
     (simp add: get_response_time_def subprocess_run_def)

lemma monitor_host_reachable:
  assumes "fst (ping_host host w) = Inr True"
    and "fst (get_response_time host (snd (ping_host host w))) = Inr rt"
  shows "monitor_host l host w =
           (Inr (), log_if l
              (reachable_msg (snd (get_response_time host (snd (ping_host host w)))) host rt)
              (print
                 (reachable_msg (snd (get_response_time host (snd (ping_host host w)))) host rt)
                 (snd (get_response_time host (snd (ping_host host w))))))"
  using assms
  by (cases "ping_host host w"; cases "get_response_time host (snd (ping_host host w))")
     (simp add: monitor_host_def Let_def)

lemma single_host_reachable:
  assumes "fst (ping_host host w) = Inr True"
    and "fst (get_response_time host (snd (ping_host host w))) = Inr rt"
  shows "single_host host w =
           (Inr (), print
              (single_reachable_msg (snd (get_response_time host (snd (ping_host host w))))
                 host rt)
              (snd (get_response_time host (snd (ping_host host w)))))"
  using assms
  by (cases "ping_host host w"; cases "get_response_time host (snd (ping_host host w))")
     (simp add: single_host_def)

text \<open>
  C7. When the first ping of a host succeeds and the ping that measures the latency
  returns with code \<open>0\<close> and an output in which no time can be read, the host is
  reported \<open>REACHABLE\<close>, with no latency: the status printed (and logged) is the
  line \<open>REACHABLE\<close> of that host, in both modes.
\<close>

theorem parse_failure_keeps_reachable:
  assumes "fst (ping_host host w) = Inr True"
    and "fst (run_env (snd (ping_host host w)) (trace (snd (ping_host host w)))
           (ping_command host (snd (ping_host host w)))) = Completed 0 out"
    and "parse_time out = None"
  shows "monitor_host log_to_file host w =
           (Inr (), log_if log_to_file (check_mark @ '' '' @ host @ '': REACHABLE'')
                      (print (check_mark @ '' '' @ host @ '': REACHABLE'')
                         (snd (get_response_time host (snd (ping_host host w))))))
       \<and> single_host host w =
           (Inr (), print (ljust20 host @ '' '' @ check_mark @ '' REACHABLE'')
                      (snd (get_response_time host (snd (ping_host host w)))))"
proof -
  have "fst (get_response_time host (snd (ping_host host w))) = Inr None"
    using get_response_time_unparsed [OF assms(2)] assms(3) by simp
  then show ?thesis
    using monitor_host_reachable [OF assms(1)] single_host_reachable [OF assms(1)]
    by (simp add: reachable_msg_def single_reachable_msg_def)
qed

lemma ping_host_all_up: "fst (ping_host host (all_up out)) = Inr True"
  by (simp add: ping_host_def subprocess_run_def all_up_def lab_env)

lemma run_env_all_up:
  "run_env (all_up out) tr cmd = (Completed 0 out, 1 / 50)"
  "run_env (snd (ping_host host (all_up out))) tr cmd = (Completed 0 out, 1 / 50)"
  using same_env_ping_host [of "all_up out" host]
  by (simp_all add: same_env_def all_up_def lab_env)

lemma ping_command_all_up:
  "ping_command host (all_up out) = [''ping'', ''-c'', ''1'', host]"
  "ping_command host (snd (ping_host h (all_up out))) = [''ping'', ''-c'', ''1'', host]"
  using same_env_ping_command [OF same_env_ping_host [of "all_up out" h], of host]
  by (simp_all add: all_up_def ping_command_lab)

lemma trace_all_up: "trace (all_up out) = []"
  by (simp add: all_up_def lab_trace)

theorem parse_failure_keeps_reachable_witness:
  "fst (ping_host ''8.8.8.8'' (all_up ''1 packets transmitted, 1 received'')) = Inr True
   \<and> parse_time ''1 packets transmitted, 1 received'' = None
   \<and> trace (snd (monitor_host False ''8.8.8.8'' (all_up ''1 packets transmitted, 1 received''))) =
       [Run [''ping'', ''-c'', ''1'', ''8.8.8.8''] (1 / 50),
        Run [''ping'', ''-c'', ''1'', ''8.8.8.8''] (1 / 50),
        Print (check_mark @ '' 8.8.8.8: REACHABLE'')]
   \<and> fst (single_host ''8.8.8.8'' (all_up ''1 packets transmitted, 1 received'')) = Inr ()"
proof -
  have p: "parse_time ''1 packets transmitted, 1 received'' = None"
    by code_simp
  have r: "fst (run_env (snd (ping_host ''8.8.8.8'' (all_up ''1 packets transmitted, 1 received'')))
             (trace (snd (ping_host ''8.8.8.8'' (all_up ''1 packets transmitted, 1 received''))))
             (ping_command ''8.8.8.8'' (snd (ping_host ''8.8.8.8'' (all_up ''1 packets transmitted, 1 received'')))))
           = Completed 0 ''1 packets transmitted, 1 received''"
    by (simp add: run_env_all_up)
  show ?thesis
    using parse_failure_keeps_reachable [OF ping_host_all_up r p, of False] p
    by (simp add: ping_host_all_up trace_print trace_log_if trace_ping_host
        trace_get_response_time run_event_def run_env_all_up ping_command_all_up trace_all_up)
qed

text \<open>
  C10. When the first ping of a host succeeds and the latency read from the second
  ping is the float \<open>0.0\<close>, the status printed (and logged) is the line
  \<open>REACHABLE\<close> of that host with no latency, in both modes: the test
  \<^verbatim>\<open>if response_time:\<close> is false for \<open>0.0\<close> as it is for \<^verbatim>\<open>None\<close>.
\<close>

theorem zero_latency_is_omitted:
  assumes "fst (ping_host host w) = Inr True"
    and "fst (get_response_time host (snd (ping_host host w))) = Inr (Some (Finite 0))"
  shows "monitor_host log_to_file host w =
           (Inr (), log_if log_to_file (check_mark @ '' '' @ host @ '': REACHABLE'')
                      (print (check_mark @ '' '' @ host @ '': REACHABLE'')
                         (snd (get_response_time host (snd (ping_host host w))))))
       \<and> single_host host w =
           (Inr (), print (ljust20 host @ '' '' @ check_mark @ '' REACHABLE'')
                      (snd (get_response_time host (snd (ping_host host w)))))"
  using monitor_host_reachable [OF assms] single_host_reachable [OF assms]
  by (simp add: reachable_msg_def single_reachable_msg_def)

theorem zero_latency_is_omitted_witness:
  "fst (ping_host ''192.168.1.1'' (all_up ''bytes=32 time=0ms TTL=64'')) = Inr True
   \<and> fst (get_response_time ''192.168.1.1''
           (snd (ping_host ''192.168.1.1'' (all_up ''bytes=32 time=0ms TTL=64''))))
       = Inr (Some (Finite 0))
   \<and> trace (snd (monitor_host False ''192.168.1.1'' (all_up ''bytes=32 time=0ms TTL=64''))) =
       [Run [''ping'', ''-c'', ''1'', ''192.168.1.1''] (1 / 50),
        Run [''ping'', ''-c'', ''1'', ''192.168.1.1''] (1 / 50),
        Print (check_mark @ '' 192.168.1.1: REACHABLE'')]"
proof -
  have p: "parse_time ''bytes=32 time=0ms TTL=64'' = Some (Finite 0)"
    by code_simp
  have g: "fst (get_response_time ''192.168.1.1''
             (snd (ping_host ''192.168.1.1'' (all_up ''bytes=32 time=0ms TTL=64''))))
           = Inr (Some (Finite 0))"
    using get_response_time_unparsed
      [of "snd (ping_host ''192.168.1.1'' (all_up ''bytes=32 time=0ms TTL=64''))"
          "''192.168.1.1''" "''bytes=32 time=0ms TTL=64''"] p
    by (simp add: run_env_all_up)
  show ?thesis
    using zero_latency_is_omitted [OF ping_host_all_up g, of False] g
    by (simp add: ping_host_all_up trace_print trace_log_if trace_ping_host
        trace_get_response_time run_event_def run_env_all_up ping_command_all_up trace_all_up)
qed


subsection \<open>Echo requests per probe\<close>

lemma echo_requests_append:
  "echo_requests host (a @ b) = echo_requests host a + echo_requests host b"
  by (simp add: echo_requests_def)

lemma is_ping_of_run_event: "is_ping_of host (run_event w tr host)"
  by (simp add: run_event_def ping_command_def)

lemma echo_requests_print: "echo_requests host (trace (print s w)) = echo_requests host (trace w)"
  by (simp add: trace_print echo_requests_def)

lemma echo_requests_log_if:
  "echo_requests host (trace (log_if l m w)) = echo_requests host (trace w)"
  by (simp add: trace_log_if echo_requests_def split: option.splits)

lemma echo_requests_ping_host:
  "echo_requests host (trace (snd (ping_host host w))) = echo_requests host (trace w) + 1"
  by (simp add: trace_ping_host echo_requests_def is_ping_of_run_event)

lemma echo_requests_get_response_time:
  "echo_requests host (trace (snd (get_response_time host w))) = echo_requests host (trace w) + 1"
  by (simp add: trace_get_response_time echo_requests_def is_ping_of_run_event)

lemma echo_requests_monitor_host:
  "echo_requests host (trace (snd (monitor_host l host w))) =
     echo_requests host (trace w) + (if fst (ping_host host w) = Inr True then 2 else 1)"
proof (cases "ping_host host w")
  case (Pair r w1)
  have w1: "echo_requests host (trace w1) = echo_requests host (trace w) + 1"
    using echo_requests_ping_host [of host w] Pair by simp
  show ?thesis
  proof (cases "r = Inr True")
    case True
    obtain r2 w2 where g: "get_response_time host w1 = (r2, w2)"
      by (cases "get_response_time host w1")
    have w2: "echo_requests host (trace w2) = echo_requests host (trace w) + 2"
      using echo_requests_get_response_time [of host w1] g w1 by simp
    show ?thesis
      using Pair True g w2
      by (cases r2)
         (simp_all add: monitor_host_def Let_def echo_requests_log_if echo_requests_print)
  next
    case False
    then show ?thesis
      using Pair w1
      by (cases r)
         (auto simp: monitor_host_def Let_def echo_requests_log_if echo_requests_print
            split: bool.splits)
  qed
qed

lemma echo_requests_single_host:
  "echo_requests host (trace (snd (single_host host w))) =
     echo_requests host (trace w) + (if fst (ping_host host w) = Inr True then 2 else 1)"
proof (cases "ping_host host w")
  case (Pair r w1)
  have w1: "echo_requests host (trace w1) = echo_requests host (trace w) + 1"
    using echo_requests_ping_host [of host w] Pair by simp
  show ?thesis
  proof (cases "r = Inr True")
    case True
    obtain r2 w2 where g: "get_response_time host w1 = (r2, w2)"
      by (cases "get_response_time host w1")
    have w2: "echo_requests host (trace w2) = echo_requests host (trace w) + 2"
      using echo_requests_get_response_time [of host w1] g w1 by simp
    show ?thesis
      using Pair True g w2
      by (cases r2) (simp_all add: single_host_def echo_requests_print)
  next
    case False
    then show ?thesis
      using Pair w1
      by (cases r) (auto simp: single_host_def echo_requests_print split: bool.splits)
  qed
qed

text \<open>
  C5, as the claim states it, fails: for a host that answers, the loop body of a round
  runs \<^verbatim>\<open>ping\<close> twice, once in \<open>ping_host\<close> for the verdict and once in
  \<open>get_response_time\<close> for the latency, so that two echo requests go to the host.
\<close>

theorem one_echo_per_probe_counterexample:
  "echo_requests ''8.8.8.8''
     (trace (snd (monitor_host False ''8.8.8.8'' (all_up ''bytes=32 time=12ms TTL=117'')))) \<noteq> 1"
proof -
  have "echo_requests ''8.8.8.8''
          (trace (snd (monitor_host False ''8.8.8.8'' (all_up ''bytes=32 time=12ms TTL=117'')))) =
        echo_requests ''8.8.8.8'' (trace (all_up ''bytes=32 time=12ms TTL=117'')) + 2"
    by (simp add: echo_requests_monitor_host ping_host_all_up)
  moreover have "echo_requests ''8.8.8.8'' (trace (all_up ''bytes=32 time=12ms TTL=117'')) = 0"
    by (simp add: trace_all_up echo_requests_def)
  ultimately show ?thesis
    by simp
qed

text \<open>
  C5, amended. One call of \<open>ping_host\<close> and one call of \<open>get_response_time\<close>
  each run the command \<^verbatim>\<open>ping\<close> once, with the count argument \<open>1\<close>: one echo
  request each. The probe of a host in a round, in both modes, is \<open>ping_host\<close>
  followed, when it reports the host reachable, by \<open>get_response_time\<close>: two echo
  requests for a host reported reachable, one otherwise.
\<close>

theorem echo_requests_per_probe:
  "echo_requests host (trace (snd (ping_host host w))) = echo_requests host (trace w) + 1
   \<and> echo_requests host (trace (snd (get_response_time host w))) = echo_requests host (trace w) + 1
   \<and> echo_requests host (trace (snd (monitor_host log_to_file host w))) =
       echo_requests host (trace w) + (if fst (ping_host host w) = Inr True then 2 else 1)
   \<and> echo_requests host (trace (snd (single_host host w))) =
       echo_requests host (trace w) + (if fst (ping_host host w) = Inr True then 2 else 1)"
  by (simp only: echo_requests_ping_host echo_requests_get_response_time
      echo_requests_monitor_host echo_requests_single_host simp_thms)

subsection \<open>Reading the latency\<close>

lemma plus_match_nil_like:
  "rest = [] \<or> \<not> cls_match c (hd rest) \<Longrightarrow> plus_match c rest k = None"
  by (cases rest) auto

lemma plus_digits_Some:
  assumes "ds \<noteq> []" and "\<forall>c\<in>set ds. is_digit c"
    and "rest = [] \<or> \<not> is_digit (hd rest)" and "k rest = Some r"
  shows "plus_match Digit (ds @ rest) k = Some r"
  using assms
proof (induction ds)
  case Nil
  then show ?case by simp
next
  case (Cons d ds)
  show ?case
  proof (cases "ds = []")
    case True
    have "plus_match Digit rest k = None"
      using Cons.prems(3) by (intro plus_match_nil_like) simp
    then show ?thesis
      using True Cons.prems by simp
  next
    case False
    then have "plus_match Digit (ds @ rest) k = Some r"
      using Cons by simp
    then show ?thesis
      using Cons.prems by simp
  qed
qed

lemma plus_digits_None:
  assumes "\<forall>c\<in>set ds. is_digit c"
    and "rest = [] \<or> \<not> is_digit (hd rest)"
    and "\<forall>j<length ds. k (drop (Suc j) ds @ rest) = None"
  shows "plus_match Digit (ds @ rest) k = None"
  using assms
proof (induction ds)
  case Nil
  then show ?case by (intro plus_match_nil_like) simp
next
  case (Cons d ds)
  have "\<forall>j<length ds. k (drop (Suc j) ds @ rest) = None"
    using Cons.prems(3) by auto
  then have "plus_match Digit (ds @ rest) k = None"
    using Cons by simp
  moreover have "k (ds @ rest) = None"
    using Cons.prems(3) by auto
  ultimately show ?case
    by simp
qed

lemma plus_match_append:
  "\<not> cls_match c x \<Longrightarrow> plus_match c (u @ x # s) k = plus_match c u (\<lambda>v. k (v @ x # s))"
  by (induction u) auto

lemma rx_match_append:
  "avoids x r \<Longrightarrow> rx_match r (u @ x # s) k = rx_match r u (\<lambda>v. k (v @ x # s))"
proof (induction r arbitrary: u k)
  case (Atom c)
  then show ?case by (cases u) auto
next
  case (Plus c)
  then show ?case by (simp add: plus_match_append)
qed simp_all

lemma avoids_t: "avoids CHR ''t'' time_group" "avoids CHR ''t'' time_tail"
  by (simp_all add: time_group_def time_tail_def is_digit_def)

lemma match_here_not_t: "c \<noteq> CHR ''t'' \<Longrightarrow> match_here (c # s) = None"
  by (simp add: match_here_def time_head_def literal_def)

lemma match_here_nil: "match_here [] = None"
  by (simp add: match_here_def time_head_def literal_def)

lemma match_here_time:
  "match_here (''time='' @ s) =
     rx_match time_group s (\<lambda>s2.
       rx_match time_tail s2 (\<lambda>s3. Some (take (length s - length s2) s)))"
  by (simp add: match_here_def time_head_def literal_def)


lemma group_tail_append:
  assumes "avoids x g" and "avoids x b"
  shows "rx_match g (u @ x # s)
           (\<lambda>s2. rx_match b s2 (\<lambda>s3. Some (take (length (u @ x # s) - length s2) (u @ x # s)))) =
         rx_match g u (\<lambda>s2. rx_match b s2 (\<lambda>s3. Some (take (length u - length s2) u)))"
  by (simp add: rx_match_append [OF assms(1)] rx_match_append [OF assms(2)])

lemma match_here_append:
  assumes "u \<noteq> []"
  shows "match_here (u @ CHR ''t'' # s) = match_here u"
proof -
  define hr where
    "hr = Seq (Seq (Atom (Chr CHR ''i'')) (Seq (Atom (Chr CHR ''m'')) (Seq (Atom (Chr CHR ''e'')) Eps)))
            (Atom (OneOf ''<=''))"
  obtain a v where u: "u = a # v"
    using assms by (cases u) auto
  have av: "avoids CHR ''t'' hr"
    by (simp add: hr_def)
  have hd0: "rx_match time_head (c # w) k = (if c = CHR ''t'' then rx_match hr w k else None)"
    for c w and k :: "string \<Rightarrow> string option"
    by (simp add: time_head_def literal_def hr_def)
  show ?thesis
  proof (cases "a = CHR ''t''")
    case False
    then show ?thesis
      by (simp add: u match_here_not_t)
  next
    case True
    have "match_here (u @ CHR ''t'' # s) =
          rx_match hr (v @ CHR ''t'' # s) (\<lambda>s1. rx_match time_group s1
            (\<lambda>s2. rx_match time_tail s2 (\<lambda>s3. Some (take (length s1 - length s2) s1))))"
      using True by (simp add: match_here_def u hd0)
    also have "\<dots> = rx_match hr v (\<lambda>s1. rx_match time_group (s1 @ CHR ''t'' # s)
            (\<lambda>s2. rx_match time_tail s2
               (\<lambda>s3. Some (take (length (s1 @ CHR ''t'' # s) - length s2) (s1 @ CHR ''t'' # s)))))"
      by (rule rx_match_append [OF av])
    also have "\<dots> = rx_match hr v (\<lambda>s1. rx_match time_group s1
            (\<lambda>s2. rx_match time_tail s2 (\<lambda>s3. Some (take (length s1 - length s2) s1))))"
      by (simp only: group_tail_append [OF avoids_t])
    also have "\<dots> = match_here u"
      using True by (simp add: match_here_def u hd0)
    finally show ?thesis .
  qed
qed

lemma re_search_append:
  "re_search (pre @ CHR ''t'' # s) =
     (case re_search pre of Some g \<Rightarrow> Some g | None \<Rightarrow> re_search (CHR ''t'' # s))"
proof (induction pre)
  case Nil
  show ?case by (simp add: match_here_nil)
next
  case (Cons a pre)
  have "match_here ((a # pre) @ CHR ''t'' # s) = match_here (a # pre)"
    by (rule match_here_append) simp
  then show ?case
    using Cons by (simp split: option.splits)
qed

lemma re_search_skip:
  "\<forall>c\<in>set u. c \<noteq> CHR ''t'' \<Longrightarrow> re_search (u @ s) = re_search s"
  by (induction u) (simp_all add: match_here_not_t)

lemma contains_append: "contains ''time='' (pre @ ''time='' @ s)"
  by (induction pre) (simp_all add: starts_with_def)

lemma digit_not_unit:
  "is_digit c \<Longrightarrow> c \<noteq> CHR ''.'' \<and> c \<noteq> CHR ''m'' \<and> c \<noteq> CHR ''s'' \<and> c \<noteq> CHR ''t''"
  by (auto simp: is_digit_def)

text \<open>The tail \<^verbatim>\<open>m?s\<close> and the fraction fail on a text that starts otherwise.\<close>

lemma time_tail_None:
  "t = [] \<or> (hd t \<noteq> CHR ''m'' \<and> hd t \<noteq> CHR ''s'') \<Longrightarrow> rx_match time_tail t k = None"
  by (cases t) (auto simp: time_tail_def)

lemma fraction_None:
  "t = [] \<or> hd t \<noteq> CHR ''.'' \<Longrightarrow>
   rx_match (Seq (Atom (Chr CHR ''.'')) (Plus Digit)) t k = None"
  by (cases t) auto

lemma opt_fraction_skip:
  "t = [] \<or> hd t \<noteq> CHR ''.'' \<Longrightarrow>
   rx_match (Opt (Seq (Atom (Chr CHR ''.'')) (Plus Digit))) t k = k t"
  by (cases t) auto

lemma time_tail_ms: "rx_match time_tail (''ms'' @ rest) k = k rest"
  by (simp add: time_tail_def split: option.splits)

lemma time_tail_s: "rx_match time_tail (''s'' @ rest) k = k rest"
  by (simp add: time_tail_def)

lemma time_tail_unit:
  "unit = ''ms'' \<or> unit = ''s'' \<Longrightarrow> rx_match time_tail (unit @ rest) k = k rest"
  using time_tail_ms time_tail_s by blast

lemma unit_head:
  "unit = ''ms'' \<or> unit = ''s'' \<Longrightarrow>
   unit @ rest \<noteq> [] \<and> \<not> is_digit (hd (unit @ rest)) \<and> hd (unit @ rest) \<noteq> CHR ''.''"
  by (auto simp: is_digit_def)

text \<open>A whole number directly followed by the unit.\<close>

lemma match_here_integer:
  assumes "ds \<noteq> []" and "\<forall>c\<in>set ds. is_digit c" and "unit = ''ms'' \<or> unit = ''s''"
  shows "match_here (''time='' @ ds @ unit @ rest) = Some ds"
proof -
  let ?s = "ds @ unit @ rest"
  let ?K = "\<lambda>s2. rx_match time_tail s2 (\<lambda>s3. Some (take (length ?s - length s2) ?s))"
  let ?k1 = "\<lambda>t. rx_match (Opt (Seq (Atom (Chr CHR ''.'')) (Plus Digit))) t ?K"
  have "?k1 (unit @ rest) = ?K (unit @ rest)"
    using unit_head [OF assms(3), of rest] by (intro opt_fraction_skip) simp
  moreover have "?K (unit @ rest) = Some ds"
    by (simp add: time_tail_unit [OF assms(3)])
  ultimately have "?k1 (unit @ rest) = Some ds"
    by simp
  then have "plus_match Digit (ds @ (unit @ rest)) ?k1 = Some ds"
    using assms unit_head [OF assms(3), of rest] by (intro plus_digits_Some) simp_all
  then show ?thesis
    unfolding match_here_time time_group_def rx_match.simps(3,4) .
qed

text \<open>A number with a fraction directly followed by the unit.\<close>

lemma match_here_fraction:
  assumes "ds \<noteq> []" and "\<forall>c\<in>set ds. is_digit c"
    and "fs \<noteq> []" and "\<forall>c\<in>set fs. is_digit c" and "unit = ''ms'' \<or> unit = ''s''"
  shows "match_here (''time='' @ ds @ ''.'' @ fs @ unit @ rest) = Some (ds @ ''.'' @ fs)"
proof -
  let ?s = "ds @ ''.'' @ fs @ unit @ rest"
  let ?K = "\<lambda>s2. rx_match time_tail s2 (\<lambda>s3. Some (take (length ?s - length s2) ?s))"
  let ?k1 = "\<lambda>t. rx_match (Opt (Seq (Atom (Chr CHR ''.'')) (Plus Digit))) t ?K"
  have "?K (unit @ rest) = Some (ds @ ''.'' @ fs)"
    by (simp add: time_tail_unit [OF assms(5)])
  then have "plus_match Digit (fs @ (unit @ rest)) ?K = Some (ds @ ''.'' @ fs)"
    using assms unit_head [OF assms(5), of rest] by (intro plus_digits_Some) simp_all
  then have "?k1 (''.'' @ fs @ unit @ rest) = Some (ds @ ''.'' @ fs)"
    by simp
  then have "plus_match Digit (ds @ (''.'' @ fs @ unit @ rest)) ?k1 = Some (ds @ ''.'' @ fs)"
    using assms by (intro plus_digits_Some) (simp_all add: is_digit_def)
  then show ?thesis
    unfolding match_here_time time_group_def rx_match.simps(3,4) .
qed


text \<open>A number that is not directly followed by \<open>ms\<close> or \<open>s\<close>.\<close>

lemma after_digits_None:
  assumes "t = [] \<or> (hd t \<noteq> CHR ''.'' \<and> hd t \<noteq> CHR ''m'' \<and> hd t \<noteq> CHR ''s'')"
  shows "rx_match (Opt (Seq (Atom (Chr CHR ''.'')) (Plus Digit))) t
           (\<lambda>s2. rx_match time_tail s2 (k s2)) = None"
proof -
  have "rx_match (Opt (Seq (Atom (Chr CHR ''.'')) (Plus Digit))) t
          (\<lambda>s2. rx_match time_tail s2 (k s2)) = rx_match time_tail t (k t)"
    using assms by (intro opt_fraction_skip) auto
  also have "\<dots> = None"
    using assms by (intro time_tail_None) auto
  finally show ?thesis .
qed

lemma hd_drop_digits:
  assumes "\<forall>c\<in>set ds. is_digit c"
    and "aft = [] \<or> (hd aft \<noteq> CHR ''.'' \<and> hd aft \<noteq> CHR ''m'' \<and> hd aft \<noteq> CHR ''s'')"
  shows "drop n ds @ aft = [] \<or>
         (hd (drop n ds @ aft) \<noteq> CHR ''.'' \<and> hd (drop n ds @ aft) \<noteq> CHR ''m''
          \<and> hd (drop n ds @ aft) \<noteq> CHR ''s'')"
proof (cases "drop n ds")
  case Nil
  then show ?thesis using assms(2) by simp
next
  case (Cons c cs)
  then have "c \<in> set ds"
    by (metis in_set_dropD list.set_intros(1))
  then have "is_digit c"
    using assms(1) by simp
  then show ?thesis
    using Cons digit_not_unit [of c] by simp
qed

lemma match_here_no_unit_integer:
  assumes "\<forall>c\<in>set ds. is_digit c"
    and "aft = [] \<or> (\<not> is_digit (hd aft) \<and> hd aft \<notin> set ''.ms'')"
  shows "match_here (''time='' @ ds @ aft) = None"
proof -
  let ?s = "ds @ aft"
  let ?K = "\<lambda>s2. rx_match time_tail s2 (\<lambda>s3. Some (take (length ?s - length s2) ?s))"
  let ?k1 = "\<lambda>t. rx_match (Opt (Seq (Atom (Chr CHR ''.'')) (Plus Digit))) t ?K"
  have a0: "aft = [] \<or> (hd aft \<noteq> CHR ''.'' \<and> hd aft \<noteq> CHR ''m'' \<and> hd aft \<noteq> CHR ''s'')"
    using assms(2) by auto
  have "?k1 (drop (Suc j) ds @ aft) = None" for j
    by (rule after_digits_None [OF hd_drop_digits [OF assms(1) a0]])
  then have "plus_match Digit (ds @ aft) ?k1 = None"
    using assms by (intro plus_digits_None) auto
  then show ?thesis
    unfolding match_here_time time_group_def rx_match.simps(3,4) .
qed

lemma match_here_no_unit_fraction:
  assumes "\<forall>c\<in>set ds. is_digit c" and "\<forall>c\<in>set fs. is_digit c"
    and "aft = [] \<or> (\<not> is_digit (hd aft) \<and> hd aft \<notin> set ''.ms'')"
  shows "match_here (''time='' @ ds @ ''.'' @ fs @ aft) = None"
proof -
  let ?s = "ds @ ''.'' @ fs @ aft"
  let ?K = "\<lambda>s2. rx_match time_tail s2 (\<lambda>s3. Some (take (length ?s - length s2) ?s))"
  let ?k1 = "\<lambda>t. rx_match (Opt (Seq (Atom (Chr CHR ''.'')) (Plus Digit))) t ?K"
  have a0: "aft = [] \<or> (hd aft \<noteq> CHR ''.'' \<and> hd aft \<noteq> CHR ''m'' \<and> hd aft \<noteq> CHR ''s'')"
    using assms(3) by auto
  have "\<forall>j<length fs. ?K (drop (Suc j) fs @ aft) = None"
    using time_tail_None hd_drop_digits [OF assms(2) a0] by blast
  then have fr: "plus_match Digit (fs @ aft) ?K = None"
    using assms by (intro plus_digits_None) auto
  have dot: "?K (''.'' @ fs @ aft) = None"
    by (intro time_tail_None) simp
  have at_dot: "?k1 (''.'' @ fs @ aft) = None"
    using fr dot by simp
  have "?k1 (drop (Suc j) ds @ ''.'' @ fs @ aft) = None" for j
  proof (cases "drop (Suc j) ds")
    case Nil
    then show ?thesis using at_dot by simp
  next
    case (Cons c cs)
    then have "c \<in> set ds"
      by (metis in_set_dropD list.set_intros(1))
    then have "c \<noteq> CHR ''.'' \<and> c \<noteq> CHR ''m'' \<and> c \<noteq> CHR ''s''"
      using assms(1) digit_not_unit [of c] by simp
    then have "?k1 (c # cs @ ''.'' @ fs @ aft) = None"
      by (intro after_digits_None) simp
    then show ?thesis
      using Cons by simp
  qed
  then have "plus_match Digit (ds @ (''.'' @ fs @ aft)) ?k1 = None"
    using assms(1) by (intro plus_digits_None) (auto simp: is_digit_def)
  then show ?thesis
    unfolding match_here_time time_group_def rx_match.simps(3,4) .
qed

lemma re_search_at:
  assumes "re_search pre = None"
  shows "re_search (pre @ ''time='' @ x) =
           (case match_here (''time='' @ x) of
              Some g \<Rightarrow> Some g
            | None \<Rightarrow> re_search (''ime='' @ x))"
  using re_search_append [of pre "''ime='' @ x"] assms by (simp split: option.splits)

lemma re_search_after_value:
  assumes "\<forall>c\<in>set v. is_digit c \<or> c = CHR ''.''"
  shows "re_search (''ime='' @ v @ aft) = re_search aft"
proof -
  have "\<forall>c\<in>set (''ime='' @ v). c \<noteq> CHR ''t''"
    using assms digit_not_unit by auto
  then have "re_search ((''ime='' @ v) @ aft) = re_search aft"
    by (rule re_search_skip)
  then show ?thesis by simp
qed


text \<open>
  C6, as the claim states it, fails: a time value with no unit after it is not read.
  The pattern ends in \<^verbatim>\<open>m?s\<close>, so that the \<open>s\<close> is required.
\<close>

theorem unitless_time_counterexample:
  "parse_time ''Reply from 8.8.8.8: bytes=32 time=12 TTL=117'' = None"
  by code_simp

text \<open>
  C6, amended. The claim is about a \<open>time=\<close> value before which the output holds
  no match of the pattern. Such a value, a whole number or a number with a fraction, is
  read and returned as the float of the numeral when \<open>ms\<close> or \<open>s\<close> follows the
  number directly. When no unit follows the number, neither directly nor after blanks
  (what follows is the end of the output, or starts with a character other than a digit,
  a dot, \<open>m\<close> or \<open>s\<close>), and the output holds no match after it either, no time is
  read and the result is \<^verbatim>\<open>None\<close>. Nothing is said of a value written
  \<open>time<\<close>, nor of a number with blanks before its unit.
\<close>

theorem time_is_read_with_unit_only:
  assumes "ds \<noteq> []" and "list_all is_digit ds"
    and "fs \<noteq> []" and "list_all is_digit fs"
    and "re_search pre = None"
  shows "(unit = ''ms'' \<or> unit = ''s'' \<longrightarrow>
            parse_time (pre @ ''time='' @ ds @ unit @ rest) = Some (py_float ds)
          \<and> parse_time (pre @ ''time='' @ ds @ ''.'' @ fs @ unit @ rest) =
              Some (py_float (ds @ ''.'' @ fs)))
       \<and> ((aft = [] \<or> (\<not> is_digit (hd aft) \<and> hd aft \<notin> set ''.ms''))
            \<and> \<not> unit_after_blanks aft \<and> re_search aft = None \<longrightarrow>
            parse_time (pre @ ''time='' @ ds @ aft) = None
          \<and> parse_time (pre @ ''time='' @ ds @ ''.'' @ fs @ aft) = None)"
proof (intro conjI impI)
  note dd = assms(2) [unfolded list_all_iff] and df = assms(4) [unfolded list_all_iff]
  assume u: "unit = ''ms'' \<or> unit = ''s''"
  have "re_search (pre @ ''time='' @ ds @ unit @ rest) = Some ds"
    by (simp only: re_search_at [OF assms(5)] match_here_integer [OF assms(1) dd u] option.case)
  then show "parse_time (pre @ ''time='' @ ds @ unit @ rest) = Some (py_float ds)"
    by (simp only: parse_time_def contains_append if_True option.case)
  have "re_search (pre @ ''time='' @ ds @ ''.'' @ fs @ unit @ rest) = Some (ds @ ''.'' @ fs)"
    by (simp only: re_search_at [OF assms(5)] match_here_fraction [OF assms(1) dd assms(3) df u]
        option.case)
  then show "parse_time (pre @ ''time='' @ ds @ ''.'' @ fs @ unit @ rest) =
      Some (py_float (ds @ ''.'' @ fs))"
    by (simp only: parse_time_def contains_append if_True option.case)
next
  note dd = assms(2) [unfolded list_all_iff] and df = assms(4) [unfolded list_all_iff]
  assume "(aft = [] \<or> (\<not> is_digit (hd aft) \<and> hd aft \<notin> set ''.ms''))
      \<and> \<not> unit_after_blanks aft \<and> re_search aft = None"
  then have a: "(aft = [] \<or> (\<not> is_digit (hd aft) \<and> hd aft \<notin> set ''.ms'')) \<and> re_search aft = None"
    by simp
  have "re_search (pre @ ''time='' @ ds @ aft) = re_search (''ime='' @ ds @ aft)"
    using a by (simp only: re_search_at [OF assms(5)]
        match_here_no_unit_integer [OF dd] option.case)
  also have "\<dots> = None"
    using a re_search_after_value [of ds aft] dd by simp
  finally show "parse_time (pre @ ''time='' @ ds @ aft) = None"
    by (simp add: parse_time_def)
  have "re_search (pre @ ''time='' @ ds @ ''.'' @ fs @ aft) =
        re_search (''ime='' @ ds @ ''.'' @ fs @ aft)"
    using a by (simp only: re_search_at [OF assms(5)]
        match_here_no_unit_fraction [OF dd df] option.case)
  also have "\<dots> = None"
    using a re_search_after_value [of "ds @ ''.'' @ fs" aft] dd df by auto
  finally show "parse_time (pre @ ''time='' @ ds @ ''.'' @ fs @ aft) = None"
    by (simp add: parse_time_def)
qed

lemma decimal_value_12: "decimal_value ''12'' = 12"
  by (simp add: decimal_value_def nat_of_digits_def digit_val_def)

lemma py_float_12: "py_float ''12'' = Finite 12"
  by (simp add: py_float_def decimal_value_12 to_binary64_def ilog2_def pow2_def
      compute_floorlog Let_def round_half_even_def)

text \<open>The float of \<open>12.3\<close> is the binary64 value next to it, \<open>12.300000000000000710...\<close>.\<close>

lemma py_float_12_3: "py_float ''12.3'' = Finite (3462142213541069 / 281474976710656)"
  by code_simp

theorem time_is_read_with_unit_only_witness:
  "''12'' \<noteq> [] \<and> list_all is_digit ''12'' \<and> ''3'' \<noteq> [] \<and> list_all is_digit ''3''
   \<and> re_search ''Reply from 8.8.8.8: bytes=32 '' = None
   \<and> \<not> unit_after_blanks '' TTL=117'' \<and> re_search '' TTL=117'' = None
   \<and> parse_time ''Reply from 8.8.8.8: bytes=32 time=12ms TTL=117'' = Some (Finite 12)
   \<and> parse_time ''Reply from 8.8.8.8: bytes=32 time=12.3ms TTL=117'' = Some (py_float ''12.3'')
   \<and> parse_time ''Reply from 8.8.8.8: bytes=32 time=12 TTL=117'' = None
   \<and> parse_time ''Reply from 8.8.8.8: bytes=32 time=12.3 TTL=117'' = None"
proof -
  have d: "''12'' \<noteq> []" "list_all is_digit ''12''" "''3'' \<noteq> []" "list_all is_digit ''3''"
    by (simp_all add: is_digit_def)
  have p: "re_search ''Reply from 8.8.8.8: bytes=32 '' = None"
    by code_simp
  have q: "re_search '' TTL=117'' = None"
    by code_simp
  have u: "\<not> unit_after_blanks '' TTL=117''"
    by (simp add: unit_after_blanks_def starts_with_def)
  show ?thesis
    using d p q u py_float_12
      time_is_read_with_unit_only [OF d p, of "''ms''" "'' TTL=117''" "'' TTL=117''"]
    by (simp add: is_digit_def)
qed

subsection \<open>Traces and time\<close>

lemma printed_append: "printed (a @ b) = printed a @ printed b"
  by (induction a rule: printed.induct) simp_all

lemma pinged_append: "pinged (a @ b) = pinged a @ pinged b"
  by (induction a rule: pinged.induct) simp_all

lemma slept_append: "slept (a @ b) = slept a @ slept b"
  by (induction a rule: slept.induct) simp_all

lemma elapsed_append: "elapsed (a @ b) = elapsed a + elapsed b"
  by (simp add: elapsed_def)

lemma extends_refl: "extends w [] w"
  by (simp add: extends_def same_env_refl elapsed_def)

lemma extends_trans:
  "extends w a w1 \<Longrightarrow> extends w1 b w2 \<Longrightarrow> extends w (a @ b) w2"
  by (auto simp: extends_def elapsed_append intro: same_env_trans)

lemma extends_print: "extends w [Print s] (print s w)"
  by (simp add: extends_def same_env_print trace_print now_print elapsed_def)

lemma extends_log_if:
  "extends w (if l then [log_event w m] else []) (log_if l m w)"
  by (simp add: extends_def same_env_log_if trace_log_if now_log_if elapsed_def log_event_def
      split: option.splits)

lemma now_ping_host:
  "now (snd (ping_host host w)) = now w + snd (run_env w (trace w) (ping_command host w))"
  by (simp add: ping_host_def subprocess_run_def emit_def
      split: prod.splits run_outcome.splits)

lemma now_get_response_time:
  "now (snd (get_response_time host w)) = now w + snd (run_env w (trace w) (ping_command host w))"
  by (simp add: get_response_time_def subprocess_run_def emit_def
      split: prod.splits run_outcome.splits)

lemma extends_ping_host:
  "extends w [run_event w (trace w) host] (snd (ping_host host w))"
  by (simp add: extends_def same_env_ping_host trace_ping_host now_ping_host elapsed_def
      run_event_def)

lemma extends_get_response_time:
  "extends w [run_event w (trace w) host] (snd (get_response_time host w))"
  by (simp add: extends_def same_env_get_response_time trace_get_response_time
      now_get_response_time elapsed_def run_event_def)

lemma pinged_run_event: "pinged [run_event w tr host] = [host]"
  by (simp add: run_event_def ping_command_def)

lemma printed_run_event: "printed [run_event w tr host] = []"
  by (simp add: run_event_def)

lemma slept_run_event: "slept [run_event w tr host] = []"
  by (simp add: run_event_def)

lemma log_event_shape:
  "pinged [log_event w m] = [] \<and> slept [log_event w m] = [] \<and> busy (log_event w m) = 0"
  by (simp add: log_event_def split: option.splits)

lemma extends_uninterrupted: "extends w new w' \<Longrightarrow> uninterrupted w' = uninterrupted w"
  by (simp add: extends_def same_env_uninterrupted)

lemma uninterrupted_ping_host:
  "uninterrupted w \<Longrightarrow> fst (ping_host host w) = Inr (ping_ok w (trace w) host)"
  by (rule ping_host_step(1)) (simp add: uninterrupted_def)

lemma uninterrupted_get_response_time:
  "uninterrupted w \<Longrightarrow> \<exists>rt. fst (get_response_time host w) = Inr rt"
proof -
  assume "uninterrupted w"
  then have "fst (run_env w (trace w) (ping_command host w)) \<noteq> Interrupted"
    by (simp add: uninterrupted_def)
  then show ?thesis
    by (cases "run_env w (trace w) (ping_command host w)";
        cases "fst (run_env w (trace w) (ping_command host w))")
       (auto simp: get_response_time_def subprocess_run_def)
qed


lemma monitor_host_unreachable:
  assumes "fst (ping_host host w) = Inr False"
  shows "monitor_host l host w =
           (Inr (), log_if l (unreachable_msg host)
                      (print (unreachable_msg host) (snd (ping_host host w))))"
  using assms by (cases "ping_host host w") (simp add: monitor_host_def Let_def)

lemma single_host_unreachable:
  assumes "fst (ping_host host w) = Inr False"
  shows "single_host host w =
           (Inr (), print (single_unreachable_msg host) (snd (ping_host host w)))"
  using assms by (cases "ping_host host w") (simp add: single_host_def)

lemma same_env_single_reachable_msg:
  "same_env w w' \<Longrightarrow> single_reachable_msg w' host rt = single_reachable_msg w host rt"
  by (simp add: single_reachable_msg_def same_env_def split: option.splits)

lemma extends_same_env: "extends w new w' \<Longrightarrow> same_env w w'"
  by (simp add: extends_def)

text \<open>The probe of one host in \<open>single_check\<close>.\<close>

lemma single_host_summary:
  assumes "uninterrupted w"
  shows "fst (single_host h w) = Inr () \<and>
         (\<exists>new line n. extends w new (snd (single_host h w)) \<and> printed new = [line]
            \<and> slept new = [] \<and> pinged new = replicate n h \<and> (n = 1 \<or> n = 2)
            \<and> (line = single_unreachable_msg h \<or> (\<exists>rt. line = single_reachable_msg w h rt)))"
proof (cases "ping_ok w (trace w) h")
  case False
  let ?w1 = "snd (ping_host h w)"
  let ?new = "[run_event w (trace w) h] @ [Print (single_unreachable_msg h)]"
  have f: "fst (ping_host h w) = Inr False"
    using uninterrupted_ping_host [OF assms, of h] False by simp
  have s: "single_host h w = (Inr (), print (single_unreachable_msg h) ?w1)"
    by (rule single_host_unreachable [OF f])
  have e: "extends w ?new (snd (single_host h w))"
    unfolding s snd_conv by (rule extends_trans [OF extends_ping_host extends_print])
  have "printed ?new = [single_unreachable_msg h] \<and> slept ?new = []
        \<and> pinged ?new = replicate 1 h"
    by (simp add: run_event_def ping_command_def)
  then show ?thesis
    using s e by (intro conjI exI [of _ ?new] exI [of _ "single_unreachable_msg h"]
        exI [of _ "1::nat"]) simp_all
next
  case True
  let ?w1 = "snd (ping_host h w)"
  let ?w2 = "snd (get_response_time h ?w1)"
  have t: "fst (ping_host h w) = Inr True"
    using uninterrupted_ping_host [OF assms, of h] True by simp
  have e1: "extends w [run_event w (trace w) h] ?w1"
    by (rule extends_ping_host)
  have u1: "uninterrupted ?w1"
    using extends_uninterrupted [OF e1] assms by simp
  obtain rt where g: "fst (get_response_time h ?w1) = Inr rt"
    using uninterrupted_get_response_time [OF u1] by blast
  have e2: "extends ?w1 [run_event ?w1 (trace ?w1) h] ?w2"
    by (rule extends_get_response_time)
  have e12: "same_env w ?w2"
    using extends_same_env [OF extends_trans [OF e1 e2]] .
  let ?line = "single_reachable_msg ?w2 h rt"
  let ?new = "([run_event w (trace w) h] @ [run_event ?w1 (trace ?w1) h]) @ [Print ?line]"
  have s: "single_host h w = (Inr (), print ?line ?w2)"
    by (rule single_host_reachable [OF t g])
  have e: "extends w ?new (snd (single_host h w))"
    unfolding s snd_conv by (rule extends_trans [OF extends_trans [OF e1 e2] extends_print])
  have "printed ?new = [?line] \<and> slept ?new = [] \<and> pinged ?new = replicate 2 h"
    by (simp add: run_event_def ping_command_def numeral_2_eq_2)
  moreover have "?line = single_reachable_msg w h rt"
    by (rule same_env_single_reachable_msg [OF e12])
  ultimately show ?thesis
    using s e by (intro conjI exI [of _ ?new] exI [of _ ?line] exI [of _ "2::nat"]) auto
qed

text \<open>The probe of one host in \<open>monitor_hosts\<close>.\<close>

lemma monitor_host_summary:
  assumes "uninterrupted w"
  shows "fst (monitor_host l h w) = Inr () \<and>
         (\<exists>new n. extends w new (snd (monitor_host l h w))
            \<and> slept new = [] \<and> pinged new = replicate n h \<and> (n = 1 \<or> n = 2))"
proof (cases "ping_ok w (trace w) h")
  case False
  let ?w1 = "snd (ping_host h w)"
  let ?m = "unreachable_msg h"
  let ?w2 = "print ?m ?w1"
  let ?new = "([run_event w (trace w) h] @ [Print ?m]) @ (if l then [log_event ?w2 ?m] else [])"
  have f: "fst (ping_host h w) = Inr False"
    using uninterrupted_ping_host [OF assms, of h] False by simp
  have s: "monitor_host l h w = (Inr (), log_if l ?m ?w2)"
    by (rule monitor_host_unreachable [OF f])
  have e: "extends w ?new (snd (monitor_host l h w))"
    unfolding s snd_conv
    by (rule extends_trans [OF extends_trans [OF extends_ping_host extends_print] extends_log_if])
  have "slept ?new = [] \<and> pinged ?new = replicate 1 h"
    using log_event_shape [of ?w2 ?m]
    by (simp add: run_event_def ping_command_def pinged_append slept_append)
  then show ?thesis
    using s e by (intro conjI exI [of _ ?new] exI [of _ "1::nat"]) simp_all
next
  case True
  let ?w1 = "snd (ping_host h w)"
  let ?w2 = "snd (get_response_time h ?w1)"
  have t: "fst (ping_host h w) = Inr True"
    using uninterrupted_ping_host [OF assms, of h] True by simp
  have e1: "extends w [run_event w (trace w) h] ?w1"
    by (rule extends_ping_host)
  have u1: "uninterrupted ?w1"
    using extends_uninterrupted [OF e1] assms by simp
  obtain rt where g: "fst (get_response_time h ?w1) = Inr rt"
    using uninterrupted_get_response_time [OF u1] by blast
  have e2: "extends ?w1 [run_event ?w1 (trace ?w1) h] ?w2"
    by (rule extends_get_response_time)
  let ?m = "reachable_msg ?w2 h rt"
  let ?w3 = "print ?m ?w2"
  let ?new = "(([run_event w (trace w) h] @ [run_event ?w1 (trace ?w1) h]) @ [Print ?m])
              @ (if l then [log_event ?w3 ?m] else [])"
  have s: "monitor_host l h w = (Inr (), log_if l ?m ?w3)"
    by (rule monitor_host_reachable [OF t g])
  have e: "extends w ?new (snd (monitor_host l h w))"
    unfolding s snd_conv
    by (rule extends_trans [OF extends_trans [OF extends_trans [OF e1 e2] extends_print]
          extends_log_if])
  have "slept ?new = [] \<and> pinged ?new = replicate 2 h"
    using log_event_shape [of ?w3 ?m]
    by (simp add: run_event_def ping_command_def pinged_append slept_append numeral_2_eq_2)
  then show ?thesis
    using s e by (intro conjI exI [of _ ?new] exI [of _ "2::nat"]) simp_all
qed


subsection \<open>The loops over the hosts\<close>

lemma check_loop_summary:
  assumes "uninterrupted w"
  shows "\<exists>b new k. fst (check_loop hs w) = Inr b
            \<and> extends w new (snd (check_loop hs w))
            \<and> printed new = [] \<and> slept new = [] \<and> pinged new = take k hs
            \<and> k \<le> length hs \<and> (hs \<noteq> [] \<longrightarrow> 0 < k)"
  using assms
proof (induction hs arbitrary: w)
  case Nil
  show ?case
    using extends_refl [of w] by (intro exI [of _ False] exI [of _ "[]"] exI [of _ 0]) simp
next
  case (Cons h hs)
  obtain r0 w1 where p: "ping_host h w = (r0, w1)"
    by (cases "ping_host h w")
  have e1: "extends w [run_event w (trace w) h] w1"
    using extends_ping_host [of w h] p by simp
  have r: "r0 = Inr (ping_ok w (trace w) h)"
    using uninterrupted_ping_host [OF Cons.prems, of h] p by simp
  show ?case
  proof (cases "ping_ok w (trace w) h")
    case True
    then have c: "check_loop (h # hs) w = (Inr True, w1)"
      using r p by simp
    show ?thesis
      unfolding c snd_conv fst_conv using e1
      by (intro exI [of _ True] exI [of _ "[run_event w (trace w) h]"] exI [of _ "1::nat"])
         (simp add: run_event_def ping_command_def)
  next
    case False
    then have c: "check_loop (h # hs) w = check_loop hs w1"
      using r p by simp
    have "uninterrupted w1"
      using extends_uninterrupted [OF e1] Cons.prems by simp
    from Cons.IH [OF this] obtain b new k
      where *: "fst (check_loop hs w1) = Inr b"
        "extends w1 new (snd (check_loop hs w1))"
        "printed new = []" "slept new = []" "pinged new = take k hs" "k \<le> length hs"
      by blast
    have "extends w ([run_event w (trace w) h] @ new) (snd (check_loop hs w1))"
      by (rule extends_trans [OF e1 *(2)])
    then show ?thesis
      unfolding c using *
      by (intro exI [of _ b] exI [of _ "[run_event w (trace w) h] @ new"] exI [of _ "Suc k"])
         (simp add: run_event_def ping_command_def)
  qed
qed

lemma single_each_summary:
  assumes "uninterrupted w"
  shows "fst (single_each hosts w) = Inr () \<and>
         (\<exists>new ns. extends w new (snd (single_each hosts w))
            \<and> slept new = [] \<and> length ns = length hosts
            \<and> list_all (\<lambda>n. n = 1 \<or> n = 2) ns
            \<and> pinged new = concat (map2 replicate ns hosts)
            \<and> list_all2 (\<lambda>h line. line = single_unreachable_msg h
                 \<or> (\<exists>rt. line = single_reachable_msg w h rt)) hosts (printed new))"
  using assms
proof (induction hosts arbitrary: w)
  case Nil
  show ?case
    using extends_refl [of w] by (auto intro!: exI [of _ "[]"])
next
  case (Cons h hosts)
  let ?w1 = "snd (single_host h w)"
  from single_host_summary [OF Cons.prems, of h] obtain new1 line n
    where h1: "fst (single_host h w) = Inr ()" "extends w new1 ?w1" "printed new1 = [line]"
      "slept new1 = []" "pinged new1 = replicate n h" "n = 1 \<or> n = 2"
      "line = single_unreachable_msg h \<or> (\<exists>rt. line = single_reachable_msg w h rt)"
    by blast
  have c: "single_each (h # hosts) w = single_each hosts ?w1"
    using h1(1) by (cases "single_host h w") simp
  have u1: "uninterrupted ?w1"
    using extends_uninterrupted [OF h1(2)] Cons.prems by simp
  from Cons.IH [OF u1] obtain new ns
    where ih: "fst (single_each hosts ?w1) = Inr ()"
      "extends ?w1 new (snd (single_each hosts ?w1))" "slept new = []"
      "length ns = length hosts" "list_all (\<lambda>n. n = 1 \<or> n = 2) ns"
      "pinged new = concat (map2 replicate ns hosts)"
      "list_all2 (\<lambda>h line. line = single_unreachable_msg h
          \<or> (\<exists>rt. line = single_reachable_msg ?w1 h rt)) hosts (printed new)"
    by blast
  have m: "single_reachable_msg ?w1 x rt = single_reachable_msg w x rt" for x rt
    by (rule same_env_single_reachable_msg [OF extends_same_env [OF h1(2)]])
  have e: "extends w (new1 @ new) (snd (single_each hosts ?w1))"
    by (rule extends_trans [OF h1(2) ih(2)])
  show ?case
    unfolding c using ih h1 e
    by (intro conjI exI [of _ "new1 @ new"] exI [of _ "n # ns"])
       (simp_all add: slept_append pinged_append printed_append m)
qed

lemma monitor_each_summary:
  assumes "uninterrupted w"
  shows "fst (monitor_each l hosts w) = Inr () \<and>
         (\<exists>new ns. extends w new (snd (monitor_each l hosts w))
            \<and> slept new = [] \<and> length ns = length hosts
            \<and> list_all (\<lambda>n. n = 1 \<or> n = 2) ns
            \<and> pinged new = concat (map2 replicate ns hosts))"
  using assms
proof (induction hosts arbitrary: w)
  case Nil
  show ?case
    using extends_refl [of w] by (auto intro!: exI [of _ "[]"])
next
  case (Cons h hosts)
  let ?w1 = "snd (monitor_host l h w)"
  from monitor_host_summary [OF Cons.prems, of l h] obtain new1 n
    where h1: "fst (monitor_host l h w) = Inr ()" "extends w new1 ?w1"
      "slept new1 = []" "pinged new1 = replicate n h" "n = 1 \<or> n = 2"
    by blast
  have c: "monitor_each l (h # hosts) w = monitor_each l hosts ?w1"
    using h1(1) by (cases "monitor_host l h w") simp
  have u1: "uninterrupted ?w1"
    using extends_uninterrupted [OF h1(2)] Cons.prems by simp
  from Cons.IH [OF u1] obtain new ns
    where ih: "fst (monitor_each l hosts ?w1) = Inr ()"
      "extends ?w1 new (snd (monitor_each l hosts ?w1))" "slept new = []"
      "length ns = length hosts" "list_all (\<lambda>n. n = 1 \<or> n = 2) ns"
      "pinged new = concat (map2 replicate ns hosts)"
    by blast
  have e: "extends w (new1 @ new) (snd (monitor_each l hosts ?w1))"
    by (rule extends_trans [OF h1(2) ih(2)])
  show ?case
    unfolding c using ih h1 e
    by (intro conjI exI [of _ "new1 @ new"] exI [of _ "n # ns"])
       (simp_all add: slept_append pinged_append)
qed


subsection \<open>A single round\<close>

text \<open>
  C8. When no ping is interrupted by the user, \<open>single_check\<close> returns, for any
  list of hosts. What it has done is: one connectivity check (between one and three
  pings of the anchors, in their order, and one line \<open>ONLINE\<close> or
  \<open>OFFLINE\<close>), then one pass over the hosts in their order, with one or two pings
  and one status line for each host, and no sleep.
\<close>

theorem single_check_one_round:
  assumes "uninterrupted w"
  shows "fst (single_check hosts w) = Inr () \<and>
         (\<exists>new k ns internet lines.
            trace (snd (single_check hosts w)) = trace w @ new
            \<and> slept new = []
            \<and> printed new =
                [''Network Status Check - '' @ strftime w (now w), replicate 50 CHR ''='',
                 internet, newline # ''Host Connectivity:''] @ lines
            \<and> (internet = ''Internet Connection: '' @ check_mark @ '' ONLINE''
                 \<or> internet = ''Internet Connection: '' @ ballot_x @ '' OFFLINE'')
            \<and> list_all2 (\<lambda>h line. line = single_unreachable_msg h
                 \<or> (\<exists>rt. line = single_reachable_msg w h rt)) hosts lines
            \<and> 0 < k \<and> k \<le> 3 \<and> length ns = length hosts
            \<and> list_all (\<lambda>n. n = 1 \<or> n = 2) ns
            \<and> pinged new = take k test_hosts @ concat (map2 replicate ns hosts))"
proof -
  let ?head = "''Network Status Check - '' @ strftime w (now w)"
  let ?sep = "replicate 50 CHR ''=''"
  let ?w2 = "print ?sep (print ?head w)"
  have e2: "extends w ([Print ?head] @ [Print ?sep]) ?w2"
    by (rule extends_trans [OF extends_print extends_print])
  have u2: "uninterrupted ?w2"
    using extends_uninterrupted [OF e2] assms by simp
  obtain r3 w3 where c3: "check_loop test_hosts ?w2 = (r3, w3)"
    by (cases "check_loop test_hosts ?w2")
  from check_loop_summary [OF u2, of test_hosts] c3 obtain b new3 k
    where k: "r3 = Inr b" "extends ?w2 new3 w3" "printed new3 = []" "slept new3 = []"
      "pinged new3 = take k test_hosts" "k \<le> length test_hosts" "0 < k"
    by (auto simp: test_hosts_def)
  define internet where
    "internet = (if b then ''Internet Connection: '' @ check_mark @ '' ONLINE''
                 else ''Internet Connection: '' @ ballot_x @ '' OFFLINE'')"
  let ?w5 = "print (newline # ''Host Connectivity:'') (print internet w3)"
  have e5: "extends w3 ([Print internet] @ [Print (newline # ''Host Connectivity:'')]) ?w5"
    by (rule extends_trans [OF extends_print extends_print])
  have e05: "extends w ((([Print ?head] @ [Print ?sep]) @ new3)
               @ ([Print internet] @ [Print (newline # ''Host Connectivity:'')])) ?w5"
    by (rule extends_trans [OF extends_trans [OF e2 k(2)] e5])
  have u5: "uninterrupted ?w5"
    using extends_uninterrupted [OF e05] assms by simp
  have s: "single_check hosts w = single_each hosts ?w5"
    using c3 k(1)
    by (cases b) (simp_all add: single_check_def check_internet_connection_def Let_def
        internet_def)
  from single_each_summary [OF u5, of hosts] obtain new ns
    where h: "fst (single_each hosts ?w5) = Inr ()"
      "extends ?w5 new (snd (single_each hosts ?w5))" "slept new = []"
      "length ns = length hosts" "list_all (\<lambda>n. n = 1 \<or> n = 2) ns"
      "pinged new = concat (map2 replicate ns hosts)"
      "list_all2 (\<lambda>h line. line = single_unreachable_msg h
          \<or> (\<exists>rt. line = single_reachable_msg ?w5 h rt)) hosts (printed new)"
    by blast
  have m: "single_reachable_msg ?w5 x rt = single_reachable_msg w x rt" for x rt
    by (rule same_env_single_reachable_msg [OF extends_same_env [OF e05]])
  let ?new = "((([Print ?head] @ [Print ?sep]) @ new3)
               @ ([Print internet] @ [Print (newline # ''Host Connectivity:'')])) @ new"
  have e: "extends w ?new (snd (single_check hosts w))"
    unfolding s by (rule extends_trans [OF e05 h(2)])
  have tr: "trace (snd (single_check hosts w)) = trace w @ ?new"
    using e by (simp add: extends_def)
  have pr: "printed ?new =
      [?head, ?sep, internet, newline # ''Host Connectivity:''] @ printed new"
    using k(3) by (simp add: printed_append)
  have sl: "slept ?new = []"
    using k(4) h(3) by (simp add: slept_append)
  have pg: "pinged ?new = take k test_hosts @ concat (map2 replicate ns hosts)"
    using k(5) h(6) by (simp add: pinged_append)
  have it: "internet = ''Internet Connection: '' @ check_mark @ '' ONLINE''
            \<or> internet = ''Internet Connection: '' @ ballot_x @ '' OFFLINE''"
    by (simp add: internet_def)
  have k3: "k \<le> 3"
    using k(6) by (simp add: test_hosts_def)
  have l2: "list_all2 (\<lambda>h line. line = single_unreachable_msg h
          \<or> (\<exists>rt. line = single_reachable_msg w h rt)) hosts (printed new)"
    using h(7) by (simp add: m)
  show ?thesis
    using h(1) tr pr sl pg it k3 k(7) h(4) h(5) l2 unfolding s by blast
qed


lemma uninterrupted_first_anchor_up: "uninterrupted first_anchor_up"
  by (simp add: uninterrupted_def first_anchor_up_def lab_env)

lemma re_search_reply_12:
  "re_search ''Reply from 8.8.8.8: bytes=32 time=12ms TTL=117'' = Some ''12''"
  by code_simp

lemma parse_time_reply_12:
  "parse_time ''Reply from 8.8.8.8: bytes=32 time=12ms TTL=117'' = Some (Finite 12)"
proof -
  have "contains ''time='' ''Reply from 8.8.8.8: bytes=32 time=12ms TTL=117''"
    by code_simp
  then show ?thesis
    by (simp only: parse_time_def re_search_reply_12 py_float_12 if_True option.case)
qed

lemmas eval_world =
  emit_def print_def subprocess_run_def ping_command_def lower_def lower_char_def
  ping_host_def get_response_time_def check_internet_connection_def test_hosts_def
  single_host_def single_check_def single_reachable_msg_def single_unreachable_msg_def
  monitor_host_def reachable_msg_def unreachable_msg_def log_if_def log_result_def
  monitor_round_def monitor_iteration_def time_sleep_def lab_world_def Let_def

theorem single_check_one_round_witness:
  "uninterrupted first_anchor_up
   \<and> fst (single_check [''8.8.8.8'', ''10.0.0.1''] first_anchor_up) = Inr ()
   \<and> printed (trace (snd (single_check [''8.8.8.8'', ''10.0.0.1''] first_anchor_up))) =
       [''Network Status Check - 2024-01-01 00:00:00'', replicate 50 CHR ''='',
        ''Internet Connection: '' @ check_mark @ '' ONLINE'', newline # ''Host Connectivity:'',
        ljust20 ''8.8.8.8'' @ '' '' @ check_mark @ '' REACHABLE (12.0ms)'',
        ljust20 ''10.0.0.1'' @ '' '' @ ballot_x @ '' UNREACHABLE'']
   \<and> pinged (trace (snd (single_check [''8.8.8.8'', ''10.0.0.1''] first_anchor_up))) =
       [''8.8.8.8'', ''8.8.8.8'', ''8.8.8.8'', ''10.0.0.1'']
   \<and> slept (trace (snd (single_check [''8.8.8.8'', ''10.0.0.1''] first_anchor_up))) = []"
  using uninterrupted_first_anchor_up
    single_check_one_round [OF uninterrupted_first_anchor_up, of "[''8.8.8.8'', ''10.0.0.1'']"]
  by (simp add: eval_world first_anchor_up_def parse_time_reply_12)


subsection \<open>The rounds of continuous monitoring\<close>

lemma monitor_round_summary:
  assumes "uninterrupted w"
  shows "fst (monitor_round hosts l w) = Inr () \<and>
         (\<exists>new k ns. extends w new (snd (monitor_round hosts l w))
            \<and> slept new = [] \<and> 0 < k \<and> k \<le> 3 \<and> length ns = length hosts
            \<and> list_all (\<lambda>n. n = 1 \<or> n = 2) ns
            \<and> pinged new = take k test_hosts @ concat (map2 replicate ns hosts))"
proof -
  let ?head = "newline # ''--- Network Check at '' @ strftime w (now w) @ '' ---''"
  let ?w1 = "print ?head w"
  have e1: "extends w [Print ?head] ?w1"
    by (rule extends_print)
  have u1: "uninterrupted ?w1"
    using extends_uninterrupted [OF e1] assms by simp
  obtain r2 w2 where c2: "check_loop test_hosts ?w1 = (r2, w2)"
    by (cases "check_loop test_hosts ?w1")
  from check_loop_summary [OF u1, of test_hosts] c2 obtain b new2 k
    where k: "r2 = Inr b" "extends ?w1 new2 w2" "printed new2 = []" "slept new2 = []"
      "pinged new2 = take k test_hosts" "k \<le> length test_hosts" "0 < k"
    by (auto simp: test_hosts_def)
  define shown where
    "shown = (if b then check_mark @ '' Internet connection: ONLINE''
              else ballot_x @ '' Internet connection: OFFLINE'')"
  define logged where
    "logged = (if b then ''Internet connection: ONLINE'' else ''Internet connection: OFFLINE'')"
  let ?w3 = "print shown w2"
  let ?w4 = "log_if l logged ?w3"
  let ?new4 = "(([Print ?head] @ new2) @ [Print shown]) @ (if l then [log_event ?w3 logged] else [])"
  have e4: "extends w ?new4 ?w4"
    by (rule extends_trans [OF extends_trans [OF extends_trans [OF e1 k(2)] extends_print]
          extends_log_if])
  have u4: "uninterrupted ?w4"
    using extends_uninterrupted [OF e4] assms by simp
  have s: "monitor_round hosts l w = monitor_each l hosts ?w4"
    using c2 k(1)
    by (cases b) (simp_all add: monitor_round_def check_internet_connection_def Let_def
        shown_def logged_def)
  from monitor_each_summary [OF u4, of l hosts] obtain new ns
    where h: "fst (monitor_each l hosts ?w4) = Inr ()"
      "extends ?w4 new (snd (monitor_each l hosts ?w4))" "slept new = []"
      "length ns = length hosts" "list_all (\<lambda>n. n = 1 \<or> n = 2) ns"
      "pinged new = concat (map2 replicate ns hosts)"
    by blast
  have e: "extends w (?new4 @ new) (snd (monitor_round hosts l w))"
    unfolding s by (rule extends_trans [OF e4 h(2)])
  have sl: "slept (?new4 @ new) = []"
    using k(4) h(3) log_event_shape [of ?w3 logged] by (simp add: slept_append)
  have pg: "pinged (?new4 @ new) = take k test_hosts @ concat (map2 replicate ns hosts)"
    using k(5) h(6) log_event_shape [of ?w3 logged] by (simp add: pinged_append)
  have k3: "k \<le> 3"
    using k(6) by (simp add: test_hosts_def)
  show ?thesis
    using h(1) e sl pg k3 k(7) h(4) h(5) unfolding s by blast
qed

text \<open>
  C9, as the claim states it, fails: the probes of a round run one after the other. With
  three hosts that do not answer, each ping lasting its ten seconds, the pass over the
  hosts lasts thirty seconds, which is more than the longest single ping.
\<close>

theorem concurrent_probes_counterexample:
  "\<not> now (snd (monitor_each False [''10.0.0.1'', ''10.0.0.2'', ''10.0.0.3''] all_down))
       - now all_down
     \<le> longest (trace (snd (monitor_each False [''10.0.0.1'', ''10.0.0.2'', ''10.0.0.3''] all_down)))"
  by (simp add: eval_world all_down_def longest_def)

text \<open>
  C9, amended. Within each round the probes run sequentially, in the order of the host
  list: the round pings the anchors of the connectivity check, then each host in turn,
  once or twice, and the time the round takes is the sum of the times of all these
  pings.
\<close>

theorem probes_run_sequentially:
  assumes "uninterrupted w"
  shows "fst (monitor_round hosts log_to_file w) = Inr () \<and>
         (\<exists>new k ns.
            trace (snd (monitor_round hosts log_to_file w)) = trace w @ new
            \<and> 0 < k \<and> k \<le> 3 \<and> length ns = length hosts
            \<and> list_all (\<lambda>n. n = 1 \<or> n = 2) ns
            \<and> pinged new = take k test_hosts @ concat (map2 replicate ns hosts)
            \<and> slept new = []
            \<and> now (snd (monitor_round hosts log_to_file w)) - now w = elapsed new)"
proof -
  from monitor_round_summary [OF assms, of hosts log_to_file] obtain new k ns
    where *: "fst (monitor_round hosts log_to_file w) = Inr ()"
      "extends w new (snd (monitor_round hosts log_to_file w))"
      "slept new = []" "0 < k" "k \<le> 3" "length ns = length hosts"
      "list_all (\<lambda>n. n = 1 \<or> n = 2) ns"
      "pinged new = take k test_hosts @ concat (map2 replicate ns hosts)"
    by blast
  have "trace (snd (monitor_round hosts log_to_file w)) = trace w @ new"
    and "now (snd (monitor_round hosts log_to_file w)) - now w = elapsed new"
    using *(2) by (simp_all add: extends_def)
  then show ?thesis
    using * by blast
qed

lemma uninterrupted_all_down: "uninterrupted all_down"
  by (simp add: uninterrupted_def all_down_def lab_env)

theorem probes_run_sequentially_witness:
  "uninterrupted all_down
   \<and> fst (monitor_round [''10.0.0.1'', ''10.0.0.2''] False all_down) = Inr ()
   \<and> pinged (trace (snd (monitor_round [''10.0.0.1'', ''10.0.0.2''] False all_down))) =
       [''8.8.8.8'', ''1.1.1.1'', ''google.com'', ''10.0.0.1'', ''10.0.0.2'']
   \<and> now (snd (monitor_round [''10.0.0.1'', ''10.0.0.2''] False all_down)) - now all_down = 50"
  using uninterrupted_all_down
    probes_run_sequentially [OF uninterrupted_all_down, of "[''10.0.0.1'', ''10.0.0.2'']" False]
  by (simp add: eval_world all_down_def)


text \<open>
  C4, as the claim states it, fails. On a network where every ping lasts two seconds,
  a round with no host to monitor lasts two seconds; with an interval of sixty seconds
  the next round would have to start sixty seconds after the round's start. The loop
  sleeps the whole interval after the round, and the next round starts after sixty-two.
\<close>

theorem sleep_since_round_start_counterexample:
  "now (snd (monitor_iteration [] 60 False slow_net)) \<noteq>
     spec_next_start (now slow_net) 60 (now (snd (monitor_round [] False slow_net)))"
  by (simp add: eval_world slow_net_def spec_next_start_def)

text \<open>
  C4, amended. In continuous mode, after a round the loop prints the line
  \<open>Next check in ... seconds\<close> and sleeps for the whole interval, however long the
  round took. For an interval that \<^verbatim>\<open>time.sleep\<close> accepts (not negative, not
  more than the \<open>9223372036\<close> seconds that fit its nanosecond counter, and not refused
  by the operating system), and when neither a ping nor the sleep is interrupted, the
  iteration ends, and the next round starts, exactly the interval after the end of the
  round, never at once for a positive interval.
\<close>

theorem sleep_full_interval_after_round:
  assumes "uninterrupted w" and "sound_sleep w interval"
    and "0 \<le> interval" and "interval * 1000000000 \<le> pytime_max"
  shows "fst (monitor_iteration hosts interval log_to_file w) = Inr ()
       \<and> trace (snd (monitor_iteration hosts interval log_to_file w)) =
           trace (snd (monitor_round hosts log_to_file w)) @
             [Print (newline # ''Next check in '' @ str_int w interval @ '' seconds...''),
              Sleep interval (of_int interval)]
       \<and> now (snd (monitor_iteration hosts interval log_to_file w)) =
           now (snd (monitor_round hosts log_to_file w)) + of_int interval
       \<and> monitor_loop (Suc n) hosts interval log_to_file w =
           monitor_loop n hosts interval log_to_file
             (snd (monitor_iteration hosts interval log_to_file w))"
proof -
  obtain r1 w1 where m: "monitor_round hosts log_to_file w = (r1, w1)"
    by (cases "monitor_round hosts log_to_file w")
  from monitor_round_summary [OF assms(1), of hosts log_to_file] m obtain new
    where r: "r1 = Inr ()" and e: "extends w new w1"
    by auto
  have env: "sleep_env w1 = sleep_env w" "str_int w1 = str_int w"
    using e by (simp_all add: extends_def same_env_def)
  let ?line = "newline # ''Next check in '' @ str_int w interval @ '' seconds...''"
  have sl: "sleep_env (print ?line w1) (trace (print ?line w1)) interval = Slept"
    using assms(2) env by (simp add: sound_sleep_def print_def emit_def)
  have fits: "\<not> (interval * 1000000000 < pytime_min \<or> pytime_max < interval * 1000000000)"
    using assms(3,4) by (simp add: pytime_min_def)
  have ts: "time_sleep interval (print ?line w1) =
      (Inr (), (emit (Sleep interval (of_int interval)) (print ?line w1))
                 \<lparr>now := now (print ?line w1) + of_int interval\<rparr>)"
    using sl fits assms(3) by (simp add: time_sleep_def)
  have it: "monitor_iteration hosts interval log_to_file w =
      (Inr (), (emit (Sleep interval (of_int interval)) (print ?line w1))
                 \<lparr>now := now (print ?line w1) + of_int interval\<rparr>)"
    using m r env ts by (simp add: monitor_iteration_def)
  show ?thesis
    using m by (simp add: it emit_def print_def)
qed

lemma uninterrupted_slow_net: "uninterrupted slow_net"
  by (simp add: uninterrupted_def slow_net_def lab_env)

lemma sound_sleep_slow_net: "sound_sleep slow_net 60"
  by (simp add: sound_sleep_def slow_net_def lab_world_def)

lemma sixty_fits: "(60::int) * 1000000000 \<le> pytime_max"
  by (simp add: pytime_max_def)

theorem sleep_full_interval_after_round_witness:
  "uninterrupted slow_net \<and> sound_sleep slow_net 60 \<and> (0::int) \<le> 60
   \<and> (60::int) * 1000000000 \<le> pytime_max
   \<and> fst (monitor_iteration [] 60 False slow_net) = Inr ()
   \<and> now (snd (monitor_round [] False slow_net)) = 2
   \<and> now (snd (monitor_iteration [] 60 False slow_net)) = 62
   \<and> slept (trace (snd (monitor_iteration [] 60 False slow_net))) = [60]"
  using uninterrupted_slow_net sound_sleep_slow_net sixty_fits
    sleep_full_interval_after_round
      [OF uninterrupted_slow_net sound_sleep_slow_net _ sixty_fits, of "[]" False 0]
  by (simp add: eval_world slow_net_def pytime_min_def pytime_max_def)

text \<open>
  An interval whose nanoseconds do not fit is not slept: the first iteration ends
  with \<^verbatim>\<open>OverflowError\<close>, which \<open>monitor_hosts\<close> does not catch.
\<close>

lemma sleep_too_long_raises:
  assumes "uninterrupted w" and "pytime_max < interval * 1000000000"
  shows "fst (monitor_iteration hosts interval log_to_file w) = Inl OverflowError"
proof -
  obtain r1 w1 where m: "monitor_round hosts log_to_file w = (r1, w1)"
    by (cases "monitor_round hosts log_to_file w")
  from monitor_round_summary [OF assms(1), of hosts log_to_file] m have "r1 = Inr ()"
    by auto
  then show ?thesis
    using m assms(2) by (simp add: monitor_iteration_def time_sleep_def)
qed

end
